(* ===== verification/Prelude.thy ===== *)
theory Prelude
  imports Main "HOL-Library.AList"
begin

text \<open>
  Shared vocabulary of the svgcomposer development: the Python exceptions the
  code raises, the exception-state result type that the methods of
  \<open>Template\<close> return, and lemmas on association lists, the model of an lxml
  attribute dictionary (ordered, keys unique).
\<close>

named_theorems alist_simps "lemmas on attribute association lists"
named_theorems store_simps "how the element operations change the fields of a node"

section \<open>Python exceptions\<close>

text \<open>
  The exceptions of \<open>src/svgcomposer/svglue.py\<close> and \<open>src/svgcomposer/svg.py\<close>:
  \<open>LookupError\<close> (raised by \<open>Template.get_by_id\<close>), \<open>KeyError\<close> (reading a missing
  attribute with \<open>elem.attrib[k]\<close>), \<open>AttributeError\<close> (a method called on
  \<open>None\<close> or an attribute an object does not have), \<open>ValueError\<close> (lxml's
  \<open>remove\<close> of a non-child), \<open>TypeError\<close> (missing input in \<open>svg.py\<close>), the
  parser's syntax error, lxml's error for a malformed XPath expression, and
  \<open>TemplateParseError\<close>, the exception class \<open>svglue.py\<close> declares (lines 40-41)
  and never raises.
\<close>

datatype py_error =
    LookupError string
  | KeyError string
  | AttributeError string
  | ValueError
  | TypeError string
  | XMLSyntaxError
  | XPathEvalError
  | TemplateParseError

text \<open>
  A method of a mutable object returns its value and the object's new state, or
  raises an exception; the object keeps the mutations made before the raise, so the
  exception carries the state as well.
\<close>

type_synonym ('a, 's) exc = "(py_error \<times> 's) + ('a \<times> 's)"

text \<open>The object's state after a method returned or raised.\<close>

fun exc_state :: "('a, 's) exc \<Rightarrow> 's" where
  "exc_state (Inl (_, s)) = s"
| "exc_state (Inr (_, s)) = s"

section \<open>Attribute dictionaries\<close>

text \<open>
  An lxml \<open>attrib\<close> is an ordered dictionary. \<open>attr_set\<close> is \<open>elem.set(k, v)\<close>:
  an existing key keeps its position and gets the new value, a new key is
  appended. \<open>attr_del\<close> is \<open>del elem.attrib[k]\<close>.
\<close>

type_synonym attrs = "(string \<times> string) list"

fun attr_set :: "string \<Rightarrow> string \<Rightarrow> attrs \<Rightarrow> attrs" where
  "attr_set k v [] = [(k, v)]"
| "attr_set k v ((k', v') # as) =
     (if k' = k then (k, v) # as else (k', v') # attr_set k v as)"

definition attr_del :: "string \<Rightarrow> attrs \<Rightarrow> attrs" where
  "attr_del k as = filter (\<lambda>(k', _). k' \<noteq> k) as"

lemma map_of_attr_set [simp, alist_simps]:
  "map_of (attr_set k v as) = (map_of as)(k \<mapsto> v)"
  by (induction as) (auto simp: fun_eq_iff)

lemma keys_attr_set [simp, alist_simps]:
  "map fst (attr_set k v as) =
     (if k \<in> set (map fst as) then map fst as else map fst as @ [k])"
  by (induction as) (auto simp: rev_image_eqI)

lemma set_keys_attr_set [simp, alist_simps]:
  "set (map fst (attr_set k v as)) = insert k (set (map fst as))"
  by (induction as) auto

lemma distinct_attr_set [simp, alist_simps]:
  "distinct (map fst as) \<Longrightarrow> distinct (map fst (attr_set k v as))"
  by (induction as) auto

lemma map_of_filter_keys [simp, alist_simps]:
  "map_of (filter (\<lambda>(k, _). P k) as) k = (if P k then map_of as k else None)"
  by (induction as) auto

lemma set_keys_filter [simp, alist_simps]:
  "set (map fst (filter (\<lambda>(k, _). P k) as)) = {k \<in> set (map fst as). P k}"
  by (induction as) auto

lemma distinct_keys_filter [simp, alist_simps]:
  "distinct (map fst as) \<Longrightarrow> distinct (map fst (filter (\<lambda>(k, _). P k) as))"
  by (induction as) auto

section \<open>Lists\<close>

lemma those_map_Some_iff [simp]:
  "those (map f xs) = Some ys \<longleftrightarrow> list_all2 (\<lambda>x y. f x = Some y) xs ys"
  by (induction xs arbitrary: ys) (auto split: option.splits simp: list_all2_Cons1)

lemma those_map_Some [simp]: "those (map Some xs) = Some xs"
  by (induction xs) auto

lemma those_map_total:
  "\<forall>x \<in> set xs. \<exists>y. f x = Some y \<Longrightarrow> \<exists>ys. those (map f xs) = Some ys"
  by (induction xs) auto


lemma nth_list_update_if:
  "xs[i := x] ! j = (if i = j \<and> i < length xs then x else xs ! j)"
  by (cases "i < length xs") (auto simp: nth_list_update list_update_beyond not_less)


lemma distinct_concat_map_disjoint:
  "distinct xs \<Longrightarrow> (\<forall>x \<in> set xs. distinct (f x)) \<Longrightarrow>
     (\<forall>x \<in> set xs. \<forall>y \<in> set xs. x \<noteq> y \<longrightarrow> set (f x) \<inter> set (f y) = {}) \<Longrightarrow>
     distinct (concat (map f xs))"
  by (induction xs) auto


lemma filter_eq_single_iff:
  "distinct xs \<Longrightarrow> filter P xs = [e] \<longleftrightarrow> e \<in> set xs \<and> P e \<and> (\<forall>a \<in> set xs. P a \<longrightarrow> a = e)"
proof (induction xs)
  case Nil
  then show ?case by simp
next
  case (Cons x xs)
  then show ?case by (auto simp: filter_empty_conv)
qed

lemma length_filter_distinct:
  "distinct xs \<Longrightarrow> length (filter P xs) = card {x \<in> set xs. P x}"
  by (metis distinct_card distinct_filter set_filter)

lemma set_alist_update: "set (AList.update k v al) \<subseteq> insert (k, v) (set al)"
  by (induction al) auto


lemma filter_attr_set_other:
  "\<not> P k \<Longrightarrow> filter (\<lambda>(k', _). P k') (attr_set k v as) = filter (\<lambda>(k', _). P k') as"
  by (induction as) auto

lemma attr_set_new: "k \<notin> set (map fst as) \<Longrightarrow> attr_set k v as = as @ [(k, v)]"
  by (induction as) auto

lemma filter_keys_all:
  "filter (\<lambda>(k, _). P k \<or> k \<notin> set (map fst as)) as = filter (\<lambda>(k, _). P k) as"
  by (rule filter_cong) (auto simp: rev_image_eqI)

lemma removeAll_filter: "removeAll x xs = filter (\<lambda>c. c \<noteq> x) xs"
  by (induction xs) auto

lemma list_all2_filter:
  "list_all2 P xs ys \<Longrightarrow> (\<And>x y. x \<in> set xs \<Longrightarrow> P x y \<Longrightarrow> f x = g y) \<Longrightarrow>
     list_all2 P (filter f xs) (filter g ys)"
  by (induction rule: list_all2_induct) auto

end
