(* ===== verification/Etree.thy ===== *)
theory Etree
  imports Prelude
begin

text \<open>
  The part of lxml's element tree that \<open>src/svgcomposer/svglue.py\<close> uses. lxml
  is a library the sources only call; its elements are mutable objects that the
  code holds references to (the identifier cache, the definitions cache, the
  parent map of the layout pruner), so the model is an arena: a list of nodes
  addressed by their index, each with its tag, its attribute dictionary, the
  addresses of its children and the address of its parent. A detached element
  stays in the arena, as a Python object stays alive while referenced.
  A parsed document is the datatype \<open>xml\<close>; text content and comments are not
  modelled (the code never reads or writes them).
\<close>

datatype xml = Element string attrs "xml list"

type_synonym addr = nat

record node =
  tag :: string
  attrib :: attrs
  children :: "addr list"
  parent :: "addr option"

type_synonym store = "node list"

section \<open>Allocating a parsed tree\<close>

text \<open>
  \<open>alloc p x b\<close> lays the tree \<open>x\<close> out in preorder from address \<open>b\<close>, its root
  having parent \<open>p\<close>; \<open>alloc_list p xs b\<close> lays out the children \<open>xs\<close> of \<open>p\<close>
  and returns their addresses too.
\<close>

fun alloc :: "addr option \<Rightarrow> xml \<Rightarrow> addr \<Rightarrow> node list"
and alloc_list :: "addr \<Rightarrow> xml list \<Rightarrow> addr \<Rightarrow> node list \<times> addr list" where
  "alloc p (Element t as cs) b =
     (let (ns, cas) = alloc_list b cs (Suc b)
      in \<lparr>tag = t, attrib = as, children = cas, parent = p\<rparr> # ns)"
| "alloc_list p [] b = ([], [])"
| "alloc_list p (c # cs) b =
     (let ns = alloc (Some p) c b; (ns', cas) = alloc_list p cs (b + length ns)
      in (ns @ ns', b # cas))"

definition new_tree :: "xml \<Rightarrow> store \<Rightarrow> addr \<times> store" where
  "new_tree x s = (length s, s @ alloc None x (length s))"

section \<open>Traversal and readback\<close>

text \<open>
  \<open>desc n s a\<close> lists the element \<open>a\<close> and its descendants in document order,
  with fuel \<open>n\<close>; \<open>iter\<close> gives it the fuel \<open>length s\<close>, which is enough in a
  well-formed store (a child's address is above its parent's). This is the node
  set of lxml's \<open>//*\<close>. \<open>to_xml\<close> reads the subtree at \<open>a\<close> back as a value,
  the structure that \<open>etree.tostring\<close> prints.
\<close>

fun desc :: "nat \<Rightarrow> store \<Rightarrow> addr \<Rightarrow> addr list" where
  "desc 0 s a = []"
| "desc (Suc n) s a = a # concat (map (desc n s) (children (s ! a)))"

definition iter :: "store \<Rightarrow> addr \<Rightarrow> addr list" where
  "iter s a = desc (length s) s a"

fun to_xml :: "nat \<Rightarrow> store \<Rightarrow> addr \<Rightarrow> xml option" where
  "to_xml 0 s a = None"
| "to_xml (Suc n) s a =
     map_option (Element (tag (s ! a)) (attrib (s ! a)))
       (those (map (to_xml n s) (children (s ! a))))"

definition tree_of :: "store \<Rightarrow> addr \<Rightarrow> xml option" where
  "tree_of s a = to_xml (length s) s a"

fun xml_attrs :: "xml \<Rightarrow> attrs" where
  "xml_attrs (Element _ as _) = as"

section \<open>Element operations\<close>

definition get_attr :: "store \<Rightarrow> addr \<Rightarrow> string \<Rightarrow> string option" where
  "get_attr s a k = map_of (attrib (s ! a)) k"

definition set_attr :: "addr \<Rightarrow> string \<Rightarrow> string \<Rightarrow> store \<Rightarrow> store" where
  "set_attr a k v s = s[a := (s ! a)\<lparr>attrib := attr_set k v (attrib (s ! a))\<rparr>]"

definition del_attr :: "addr \<Rightarrow> string \<Rightarrow> store \<Rightarrow> store" where
  "del_attr a k s = s[a := (s ! a)\<lparr>attrib := attr_del k (attrib (s ! a))\<rparr>]"

definition set_tag :: "addr \<Rightarrow> string \<Rightarrow> store \<Rightarrow> store" where
  "set_tag a t s = s[a := (s ! a)\<lparr>tag := t\<rparr>]"

text \<open>
  \<open>parent.append(c)\<close> and \<open>parent.insert(i, c)\<close> for an element \<open>c\<close> that has
  no parent yet (the only way the code calls them: a freshly parsed fragment, a
  freshly created element).
\<close>

definition append_child :: "addr \<Rightarrow> addr \<Rightarrow> store \<Rightarrow> store" where
  "append_child p c s =
     (let s' = s[p := (s ! p)\<lparr>children := children (s ! p) @ [c]\<rparr>]
      in s'[c := (s' ! c)\<lparr>parent := Some p\<rparr>])"

definition insert_child :: "addr \<Rightarrow> nat \<Rightarrow> addr \<Rightarrow> store \<Rightarrow> store" where
  "insert_child p i c s =
     (let cs = children (s ! p);
          s' = s[p := (s ! p)\<lparr>children := take i cs @ c # drop i cs\<rparr>]
      in s'[c := (s' ! c)\<lparr>parent := Some p\<rparr>])"

text \<open>\<open>parent.remove(c)\<close>: lxml raises \<open>ValueError\<close> when \<open>c\<close> is not a child.\<close>

definition remove_child :: "addr \<Rightarrow> addr \<Rightarrow> store \<Rightarrow> py_error + store" where
  "remove_child p c s =
     (if c \<in> set (children (s ! p)) then
        (let s' = s[p := (s ! p)\<lparr>children := removeAll c (children (s ! p))\<rparr>]
         in Inr (s'[c := (s' ! c)\<lparr>parent := None\<rparr>]))
      else Inl ValueError)"

section \<open>Well-formed stores\<close>

text \<open>
  A store is well formed when the children lists and the parent pointers agree,
  children lists have no repetition, and every child lives above its parent.
  The last condition is what makes the arena a forest and gives \<open>desc\<close> its
  fuel bound.
\<close>

definition wf_store :: "store \<Rightarrow> bool" where
  "wf_store s \<longleftrightarrow>
     (\<forall>a < length s. distinct (children (s ! a)) \<and>
        (\<forall>c \<in> set (children (s ! a)). a < c \<and> c < length s \<and> parent (s ! c) = Some a)) \<and>
     (\<forall>c < length s. case parent (s ! c) of
        None \<Rightarrow> True
      | Some p \<Rightarrow> p < length s \<and> c \<in> set (children (s ! p)))"

text \<open>\<open>anc s x a\<close>: \<open>a\<close> is \<open>x\<close> or an ancestor of \<open>x\<close> along the parent pointers.\<close>

inductive anc :: "store \<Rightarrow> addr \<Rightarrow> addr \<Rightarrow> bool" for s :: store where
  anc_refl: "anc s a a"
| anc_step: "parent (s ! x) = Some p \<Longrightarrow> anc s p a \<Longrightarrow> anc s x a"

section \<open>Lemmas: well-formed stores, fuel, allocation\<close>

lemma wf_childD:
  "wf_store s \<Longrightarrow> a < length s \<Longrightarrow> c \<in> set (children (s ! a)) \<Longrightarrow>
     a < c \<and> c < length s \<and> parent (s ! c) = Some a"
  unfolding wf_store_def by blast

lemma wf_parentD:
  "wf_store s \<Longrightarrow> c < length s \<Longrightarrow> parent (s ! c) = Some p \<Longrightarrow>
     p < length s \<and> c \<in> set (children (s ! p))"
  unfolding wf_store_def by (drule conjunct2, drule spec[of _ c]) simp

lemma desc_fuel:
  "wf_store s \<Longrightarrow> a < length s \<Longrightarrow> length s - a \<le> n \<Longrightarrow> length s - a \<le> m \<Longrightarrow>
     desc n s a = desc m s a"
proof (induction n arbitrary: a m)
  case 0
  then show ?case by simp
next
  case (Suc n)
  then obtain m' where m: "m = Suc m'" by (cases m) auto
  have "desc n s c = desc m' s c" if "c \<in> set (children (s ! a))" for c
  proof -
    from wf_childD[OF Suc.prems(1,2) that] have "a < c" "c < length s" by auto
    with Suc.prems m show ?thesis by (intro Suc.IH) auto
  qed
  then show ?case using m by (simp cong: map_cong)
qed

lemma to_xml_fuel:
  "wf_store s \<Longrightarrow> a < length s \<Longrightarrow> length s - a \<le> n \<Longrightarrow> length s - a \<le> m \<Longrightarrow>
     to_xml n s a = to_xml m s a"
proof (induction n arbitrary: a m)
  case 0
  then show ?case by simp
next
  case (Suc n)
  then obtain m' where m: "m = Suc m'" by (cases m) auto
  have "to_xml n s c = to_xml m' s c" if "c \<in> set (children (s ! a))" for c
  proof -
    from wf_childD[OF Suc.prems(1,2) that] have "a < c" "c < length s" by auto
    with Suc.prems m show ?thesis by (intro Suc.IH) auto
  qed
  then show ?case using m by (simp cong: map_cong)
qed

lemma to_xml_total:
  "wf_store s \<Longrightarrow> a < length s \<Longrightarrow> length s - a \<le> n \<Longrightarrow> \<exists>x. to_xml n s a = Some x"
proof (induction n arbitrary: a)
  case 0
  then show ?case by simp
next
  case (Suc n)
  have "\<forall>c \<in> set (children (s ! a)). \<exists>x. to_xml n s c = Some x"
  proof
    fix c assume c: "c \<in> set (children (s ! a))"
    from wf_childD[OF Suc.prems(1,2) c] have "a < c" "c < length s" by auto
    with Suc.prems show "\<exists>x. to_xml n s c = Some x" by (intro Suc.IH) auto
  qed
  then obtain ys where "those (map (to_xml n s) (children (s ! a))) = Some ys"
    by (blast dest: those_map_total)
  then show ?case by (simp del: those_map_Some_iff)
qed

lemma alloc_nonempty: "alloc p x b \<noteq> []"
  by (cases x) (simp add: Let_def split: prod.split)

lemma alloc_to_xml:
  "length pre = b \<Longrightarrow> length (alloc p x b) \<le> n \<Longrightarrow>
     to_xml n (pre @ alloc p x b @ post) b = Some x"
and alloc_list_to_xml:
  "alloc_list q cs b = (ns, cas) \<Longrightarrow> length pre = b \<Longrightarrow> length ns \<le> n \<Longrightarrow>
     map (to_xml n (pre @ ns @ post)) cas = map Some cs"
proof (induction p x b and q cs b arbitrary: pre post n and pre post n ns cas
    rule: alloc_alloc_list.induct)
  case (1 p t as cs b)
  obtain ns cas where l: "alloc_list b cs (Suc b) = (ns, cas)" by fastforce
  from "1.prems" l obtain n' where n: "n = Suc n'" "length ns \<le> n'" by (cases n) auto
  define nd where "nd = \<lparr>tag = t, attrib = as, children = cas, parent = p\<rparr>"
  have "map (to_xml n' ((pre @ [nd]) @ ns @ post)) cas = map Some cs"
    using "1.IH"[OF l, of "pre @ [nd]" n' post] "1.prems" n by simp
  then show ?case using "1.prems" l n by (simp add: nth_append nd_def del: those_map_Some_iff)
next
  case (2 p b)
  then show ?case by simp
next
  case (3 q c cs b)
  obtain ns2 cas2 where l: "alloc_list q cs (b + length (alloc (Some q) c b)) = (ns2, cas2)"
    by fastforce
  with "3.prems" have ns: "ns = alloc (Some q) c b @ ns2" and cas: "cas = b # cas2"
    by (simp_all add: Let_def)
  have "to_xml n (pre @ alloc (Some q) c b @ (ns2 @ post)) b = Some c"
    using "3.IH"(1) "3.prems" ns by simp
  moreover have "map (to_xml n ((pre @ alloc (Some q) c b) @ ns2 @ post)) cas2 = map Some cs"
    using "3.IH"(2)[OF refl l, of "pre @ alloc (Some q) c b" n post] "3.prems" ns by simp
  ultimately show ?case using ns cas by simp
qed

definition seg_ok :: "addr option \<Rightarrow> addr list \<Rightarrow> addr \<Rightarrow> node list \<Rightarrow> bool" where
  "seg_ok p rs b ns \<longleftrightarrow>
     distinct rs \<and> (\<forall>r \<in> set rs. b \<le> r \<and> r < b + length ns \<and> parent (ns ! (r - b)) = p) \<and>
     (\<forall>i < length ns. distinct (children (ns ! i)) \<and>
        (\<forall>c \<in> set (children (ns ! i)).
           b + i < c \<and> c < b + length ns \<and> parent (ns ! (c - b)) = Some (b + i)) \<and>
        (b + i \<notin> set rs \<longrightarrow>
           (\<exists>q. parent (ns ! i) = Some q \<and> b \<le> q \<and> q < b + i \<and>
                b + i \<in> set (children (ns ! (q - b))))))"

lemma nth_Cons_diff: "b < c \<Longrightarrow> (x # xs) ! (c - b) = xs ! (c - Suc b)"
  by (metis Suc_diff_Suc nth_Cons_Suc)

lemma seg_ok_node:
  assumes seg: "seg_ok (Some b) cas (Suc b) ns"
  shows "seg_ok p [b] b (\<lparr>tag = t, attrib = as, children = cas, parent = p\<rparr> # ns)"
    (is "seg_ok p [b] b (?n # ns)")
proof -
  have ch: "Suc b \<le> c \<and> c < Suc b + length ns \<and> parent (ns ! (c - Suc b)) = Some b"
    if "c \<in> set cas" for c
    using seg that by (auto simp: seg_ok_def)
  have inner: "distinct (children (ns ! j)) \<and>
      (\<forall>c \<in> set (children (ns ! j)).
         Suc b + j < c \<and> c < Suc b + length ns \<and> parent (ns ! (c - Suc b)) = Some (Suc b + j)) \<and>
      (Suc b + j \<notin> set cas \<longrightarrow>
         (\<exists>q. parent (ns ! j) = Some q \<and> Suc b \<le> q \<and> q < Suc b + j \<and>
              Suc b + j \<in> set (children (ns ! (q - Suc b)))))"
    if "j < length ns" for j
    using seg that unfolding seg_ok_def by blast
  have node0: "distinct (children ((?n # ns) ! 0)) \<and>
      (\<forall>c \<in> set (children ((?n # ns) ! 0)).
         b + 0 < c \<and> c < b + length (?n # ns) \<and> parent ((?n # ns) ! (c - b)) = Some (b + 0))"
  proof -
    have "b < c \<and> c < b + length (?n # ns) \<and> parent ((?n # ns) ! (c - b)) = Some b"
      if "c \<in> set cas" for c
    proof -
      from ch[OF that] have "b < c" by simp
      with ch[OF that] show ?thesis by (simp add: nth_Cons_diff)
    qed
    with seg show ?thesis by (simp add: seg_ok_def)
  qed
  have nodeS: "distinct (children ((?n # ns) ! Suc j)) \<and>
      (\<forall>c \<in> set (children ((?n # ns) ! Suc j)).
         b + Suc j < c \<and> c < b + length (?n # ns) \<and> parent ((?n # ns) ! (c - b)) = Some (b + Suc j)) \<and>
      (b + Suc j \<notin> set [b] \<longrightarrow>
         (\<exists>q. parent ((?n # ns) ! Suc j) = Some q \<and> b \<le> q \<and> q < b + Suc j \<and>
              b + Suc j \<in> set (children ((?n # ns) ! (q - b)))))"
    if j: "j < length ns" for j
  proof -
    note in_j = inner[OF j]
    have "\<exists>q. parent (ns ! j) = Some q \<and> b \<le> q \<and> q < b + Suc j \<and>
              b + Suc j \<in> set (children ((?n # ns) ! (q - b)))"
    proof (cases "Suc b + j \<in> set cas")
      case True
      then show ?thesis using ch[OF True] by auto
    next
      case False
      then obtain q where "parent (ns ! j) = Some q" "Suc b \<le> q" "q < Suc b + j"
          "Suc b + j \<in> set (children (ns ! (q - Suc b)))"
        using in_j by blast
      then show ?thesis by (auto simp: nth_Cons_diff)
    qed
    then show ?thesis using in_j by (auto simp: nth_Cons_diff)
  qed
  have "\<forall>i < length (?n # ns). distinct (children ((?n # ns) ! i)) \<and>
      (\<forall>c \<in> set (children ((?n # ns) ! i)).
         b + i < c \<and> c < b + length (?n # ns) \<and> parent ((?n # ns) ! (c - b)) = Some (b + i)) \<and>
      (b + i \<notin> set [b] \<longrightarrow>
         (\<exists>q. parent ((?n # ns) ! i) = Some q \<and> b \<le> q \<and> q < b + i \<and>
              b + i \<in> set (children ((?n # ns) ! (q - b)))))"
  proof (intro allI impI)
    fix i assume "i < length (?n # ns)"
    then show "distinct (children ((?n # ns) ! i)) \<and>
      (\<forall>c \<in> set (children ((?n # ns) ! i)).
         b + i < c \<and> c < b + length (?n # ns) \<and> parent ((?n # ns) ! (c - b)) = Some (b + i)) \<and>
      (b + i \<notin> set [b] \<longrightarrow>
         (\<exists>q. parent ((?n # ns) ! i) = Some q \<and> b \<le> q \<and> q < b + i \<and>
              b + i \<in> set (children ((?n # ns) ! (q - b)))))"
      using node0 nodeS by (cases i) auto
  qed
  then show ?thesis unfolding seg_ok_def by simp
qed

lemma seg_ok_append:
  assumes s1: "seg_ok p rs1 b ns1" and s2: "seg_ok p rs2 (b + length ns1) ns2"
  shows "seg_ok p (rs1 @ rs2) b (ns1 @ ns2)"
proof -
  let ?ns = "ns1 @ ns2"
  have lo: "?ns ! (c - b) = ns1 ! (c - b)" if "b \<le> c" "c < b + length ns1" for c
    using that by (simp add: nth_append)
  have hi: "?ns ! (c - b) = ns2 ! (c - (b + length ns1))" if "b + length ns1 \<le> c" for c
    using that by (simp add: nth_append diff_diff_add)
  have roots: "distinct (rs1 @ rs2) \<and>
      (\<forall>r \<in> set (rs1 @ rs2). b \<le> r \<and> r < b + length ?ns \<and> parent (?ns ! (r - b)) = p)"
    using s1 s2 by (fastforce simp: seg_ok_def lo hi)
  have nodes: "distinct (children (?ns ! i)) \<and>
        (\<forall>c \<in> set (children (?ns ! i)).
           b + i < c \<and> c < b + length ?ns \<and> parent (?ns ! (c - b)) = Some (b + i)) \<and>
        (b + i \<notin> set (rs1 @ rs2) \<longrightarrow>
           (\<exists>q. parent (?ns ! i) = Some q \<and> b \<le> q \<and> q < b + i \<and>
                b + i \<in> set (children (?ns ! (q - b)))))"
    if i: "i < length ?ns" for i
  proof (cases "i < length ns1")
    case True
    then have ni: "?ns ! i = ns1 ! i" by (simp add: nth_append)
    from s1 True have "distinct (children (ns1 ! i)) \<and>
        (\<forall>c \<in> set (children (ns1 ! i)).
           b + i < c \<and> c < b + length ns1 \<and> parent (ns1 ! (c - b)) = Some (b + i)) \<and>
        (b + i \<notin> set rs1 \<longrightarrow>
           (\<exists>q. parent (ns1 ! i) = Some q \<and> b \<le> q \<and> q < b + i \<and>
                b + i \<in> set (children (ns1 ! (q - b)))))"
      unfolding seg_ok_def by blast
    then show ?thesis using True by (auto simp: ni lo)
  next
    case False
    define j where "j = i - length ns1"
    with False have ij: "i = length ns1 + j" by simp
    with i have j: "j < length ns2" by simp
    have ni: "?ns ! i = ns2 ! j" using ij by (simp add: nth_append)
    from s2 j have "distinct (children (ns2 ! j)) \<and>
        (\<forall>c \<in> set (children (ns2 ! j)).
           b + length ns1 + j < c \<and> c < b + length ns1 + length ns2 \<and>
           parent (ns2 ! (c - (b + length ns1))) = Some (b + length ns1 + j)) \<and>
        (b + length ns1 + j \<notin> set rs2 \<longrightarrow>
           (\<exists>q. parent (ns2 ! j) = Some q \<and> b + length ns1 \<le> q \<and> q < b + length ns1 + j \<and>
                b + length ns1 + j \<in> set (children (ns2 ! (q - (b + length ns1))))))"
      unfolding seg_ok_def by blast
    then show ?thesis using ij by (auto simp: ni hi add.assoc)
  qed
  from roots nodes show ?thesis unfolding seg_ok_def by blast
qed

lemma alloc_seg: "seg_ok p [b] b (alloc p x b)"
and alloc_list_seg: "alloc_list q cs b = (ns, cas) \<Longrightarrow> seg_ok (Some q) cas b ns"
proof (induction p x b and q cs b arbitrary: and ns cas rule: alloc_alloc_list.induct)
  case (1 p t as cs b)
  obtain ns cas where l: "alloc_list b cs (Suc b) = (ns, cas)" by fastforce
  with "1.IH"[OF l] show ?case by (simp add: seg_ok_node)
next
  case (2 p b)
  then show ?case by (simp add: seg_ok_def)
next
  case (3 q c cs b)
  obtain ns2 cas2 where l: "alloc_list q cs (b + length (alloc (Some q) c b)) = (ns2, cas2)"
    by fastforce
  with "3.prems" have "ns = alloc (Some q) c b @ ns2" and "cas = [b] @ cas2"
    by (simp_all add: Let_def)
  with "3.IH"(1) "3.IH"(2)[OF refl l] show ?case by (simp only: seg_ok_append)
qed


lemma seg_okD:
  assumes "seg_ok p rs b ns" "i < length ns"
  shows "distinct (children (ns ! i))"
    and "c \<in> set (children (ns ! i)) \<Longrightarrow>
           b + i < c \<and> c < b + length ns \<and> parent (ns ! (c - b)) = Some (b + i)"
    and "b + i \<notin> set rs \<Longrightarrow>
           \<exists>q. parent (ns ! i) = Some q \<and> b \<le> q \<and> q < b + i \<and>
                b + i \<in> set (children (ns ! (q - b)))"
  using assms unfolding seg_ok_def by blast+

lemma wf_distinctD: "wf_store s \<Longrightarrow> a < length s \<Longrightarrow> distinct (children (s ! a))"
  unfolding wf_store_def by blast


lemma wf_parent_caseD:
  "wf_store s \<Longrightarrow> c < length s \<Longrightarrow>
     (case parent (s ! c) of None \<Rightarrow> True | Some p \<Rightarrow> p < length s \<and> c \<in> set (children (s ! p)))"
  unfolding wf_store_def by blast

lemma wf_storeI:
  assumes "\<And>a. a < length s \<Longrightarrow> distinct (children (s ! a)) \<and>
      (\<forall>c \<in> set (children (s ! a)). a < c \<and> c < length s \<and> parent (s ! c) = Some a)"
    and "\<And>c. c < length s \<Longrightarrow>
      (case parent (s ! c) of None \<Rightarrow> True | Some p \<Rightarrow> p < length s \<and> c \<in> set (children (s ! p)))"
  shows "wf_store s"
  using assms unfolding wf_store_def by blast

lemma append_seg_children:
  assumes wf: "wf_store s" and seg: "seg_ok None [length s] (length s) ns"
    and a: "a < length (s @ ns)"
  shows "distinct (children ((s @ ns) ! a)) \<and>
    (\<forall>c \<in> set (children ((s @ ns) ! a)).
       a < c \<and> c < length (s @ ns) \<and> parent ((s @ ns) ! c) = Some a)"
proof (cases "a < length s")
  case True
  then have n: "(s @ ns) ! a = s ! a" by (simp add: nth_append)
  have "c < length s \<Longrightarrow> (s @ ns) ! c = s ! c" for c by (simp add: nth_append)
  with True wf_childD[OF wf True] wf_distinctD[OF wf True] show ?thesis
    by (auto simp: n trans_less_add1)
next
  case False
  then have i: "a - length s < length ns" and n: "(s @ ns) ! a = ns ! (a - length s)"
    using a by (simp_all add: nth_append)
  have d: "distinct (children ((s @ ns) ! a))" using seg_okD(1)[OF seg i] by (simp add: n)
  have "\<forall>c \<in> set (children ((s @ ns) ! a)).
      a < c \<and> c < length (s @ ns) \<and> parent ((s @ ns) ! c) = Some a"
  proof
    fix c assume "c \<in> set (children ((s @ ns) ! a))"
    then have "length s + (a - length s) < c \<and> c < length s + length ns \<and>
        parent (ns ! (c - length s)) = Some (length s + (a - length s))"
      using seg_okD(2)[OF seg i] by (simp add: n)
    with False show "a < c \<and> c < length (s @ ns) \<and> parent ((s @ ns) ! c) = Some a"
      by (simp add: nth_append)
  qed
  with d show ?thesis by blast
qed

lemma append_seg_parent:
  assumes wf: "wf_store s" and seg: "seg_ok None [length s] (length s) ns"
    and c: "c < length (s @ ns)"
  shows "case parent ((s @ ns) ! c) of None \<Rightarrow> True
    | Some p \<Rightarrow> p < length (s @ ns) \<and> c \<in> set (children ((s @ ns) ! p))"
proof (cases "c < length s")
  case True
  then have n: "(s @ ns) ! c = s ! c" by (simp add: nth_append)
  have "p < length s \<Longrightarrow> (s @ ns) ! p = s ! p" for p by (simp add: nth_append)
  with wf_parent_caseD[OF wf True] show ?thesis
    by (auto simp: n split: option.splits)
next
  case False
  then have i: "c - length s < length ns" and n: "(s @ ns) ! c = ns ! (c - length s)"
    using c by (simp_all add: nth_append)
  have nq: "length s \<le> q \<Longrightarrow> (s @ ns) ! q = ns ! (q - length s)" for q
    by (simp add: nth_append)
  show ?thesis
  proof (cases "c = length s")
    case True
    have "parent (ns ! 0) = None" using seg by (simp add: seg_ok_def)
    moreover from True n have "(s @ ns) ! c = ns ! 0" by simp
    ultimately show ?thesis by simp
  next
    case cb: False
    with False have "length s + (c - length s) \<notin> set [length s]" by simp
    from seg_okD(3)[OF seg i this] obtain q where
      "parent (ns ! (c - length s)) = Some q" "length s \<le> q" "q < c"
      "c \<in> set (children (ns ! (q - length s)))"
      using False by auto
    with c show ?thesis by (simp add: n nq)
  qed
qed

lemma new_tree_wf:
  assumes wf: "wf_store s" and nt: "new_tree x s = (a, s')"
  shows "wf_store s' \<and> a = length s \<and> a < length s' \<and> parent (s' ! a) = None \<and>
    take (length s) s' = s"
proof -
  let ?ns = "alloc None x (length s)"
  from nt have a: "a = length s" and s': "s' = s @ ?ns" by (auto simp: new_tree_def)
  have seg: "seg_ok None [length s] (length s) ?ns" by (rule alloc_seg)
  have "wf_store (s @ ?ns)"
  proof (rule wf_storeI)
    fix a' assume "a' < length (s @ ?ns)"
    then show "distinct (children ((s @ ?ns) ! a')) \<and>
      (\<forall>c \<in> set (children ((s @ ?ns) ! a')).
         a' < c \<and> c < length (s @ ?ns) \<and> parent ((s @ ?ns) ! c) = Some a')"
      by (rule append_seg_children[OF wf seg])
  next
    fix c assume "c < length (s @ ?ns)"
    then show "case parent ((s @ ?ns) ! c) of None \<Rightarrow> True
      | Some p \<Rightarrow> p < length (s @ ?ns) \<and> c \<in> set (children ((s @ ?ns) ! p))"
      by (rule append_seg_parent[OF wf seg])
  qed
  moreover have "?ns \<noteq> []" by (rule alloc_nonempty)
  moreover have "parent (?ns ! 0) = None" using seg by (simp add: seg_ok_def)
  ultimately show ?thesis using a s' by (simp add: nth_append del: wf_store_def)
qed

section \<open>Lemmas: the element operations keep the store well formed\<close>

lemma wf_update_same_links:
  assumes wf: "wf_store s" and a: "a < length s"
    and ch: "children n = children (s ! a)" and pa: "parent n = parent (s ! a)"
  shows "wf_store (s[a := n])"
proof -
  have lk: "children (s[a := n] ! b) = children (s ! b) \<and> parent (s[a := n] ! b) = parent (s ! b)"
    if "b < length s" for b
    using ch pa that by (cases "b = a") simp_all
  show ?thesis
  proof (rule wf_storeI)
    fix b assume "b < length (s[a := n])"
    then have b: "b < length s" by simp
    show "distinct (children (s[a := n] ! b)) \<and>
      (\<forall>c \<in> set (children (s[a := n] ! b)).
         b < c \<and> c < length (s[a := n]) \<and> parent (s[a := n] ! c) = Some b)"
      using wf_childD[OF wf b] wf_distinctD[OF wf b] lk[OF b] lk by auto
  next
    fix c assume "c < length (s[a := n])"
    then have c: "c < length s" by simp
    show "case parent (s[a := n] ! c) of None \<Rightarrow> True
      | Some p \<Rightarrow> p < length (s[a := n]) \<and> c \<in> set (children (s[a := n] ! p))"
      using wf_parent_caseD[OF wf c] lk[OF c] lk by (auto split: option.splits)
  qed
qed

lemma wf_set_attr: "wf_store s \<Longrightarrow> a < length s \<Longrightarrow> wf_store (set_attr a k v s)"
  unfolding set_attr_def by (rule wf_update_same_links) simp_all

lemma wf_del_attr: "wf_store s \<Longrightarrow> a < length s \<Longrightarrow> wf_store (del_attr a k s)"
  unfolding del_attr_def by (rule wf_update_same_links) simp_all

lemma wf_set_tag: "wf_store s \<Longrightarrow> a < length s \<Longrightarrow> wf_store (set_tag a t s)"
  unfolding set_tag_def by (rule wf_update_same_links) simp_all

lemma distinct_insert_at:
  "distinct xs \<Longrightarrow> c \<notin> set xs \<Longrightarrow> distinct (take i xs @ c # drop i xs)"
proof -
  assume d: "distinct xs" and c: "c \<notin> set xs"
  have "set (take i xs) \<inter> set (drop i xs) = {}"
    using d by (simp add: set_take_disj_set_drop_if_distinct)
  moreover have "c \<notin> set (take i xs)" "c \<notin> set (drop i xs)"
    using c by (auto dest: in_set_takeD in_set_dropD)
  ultimately show ?thesis using d by (simp add: distinct_take distinct_drop)
qed
lemma wf_insert_child:
  assumes wf: "wf_store s" and pc: "p < c" "c < length s" and orphan: "parent (s ! c) = None"
  shows "wf_store (insert_child p i c s)"
proof -
  let ?cs = "children (s ! p)"
  let ?s' = "insert_child p i c s"
  have p: "p < length s" using pc by simp
  have notin: "c \<notin> set ?cs" using wf_childD[OF wf p] orphan by auto
  have len: "length ?s' = length s" by (simp add: insert_child_def Let_def)
  have chp: "children (?s' ! p) = take i ?cs @ c # drop i ?cs"
    using pc by (simp add: insert_child_def Let_def nth_list_update)
  have cho: "children (?s' ! b) = children (s ! b)" if "b \<noteq> p" "b < length s" for b
    using that pc by (cases "b = c") (simp_all add: insert_child_def Let_def nth_list_update)
  have pac: "parent (?s' ! c) = Some p"
    using pc by (simp add: insert_child_def Let_def)
  have pao: "parent (?s' ! b) = parent (s ! b)" if "b \<noteq> c" "b < length s" for b
    using that pc by (simp add: insert_child_def Let_def nth_list_update)
  have setp: "set (children (?s' ! p)) = insert c (set ?cs)"
    by (simp add: chp) (metis append_take_drop_id set_append Un_iff)
  show ?thesis
  proof (rule wf_storeI)
    fix b assume "b < length ?s'"
    then have b: "b < length s" using len by simp
    show "distinct (children (?s' ! b)) \<and>
      (\<forall>d \<in> set (children (?s' ! b)). b < d \<and> d < length ?s' \<and> parent (?s' ! d) = Some b)"
    proof (cases "b = p")
      case True
      have "distinct (take i ?cs @ c # drop i ?cs)"
        using wf_distinctD[OF wf p] notin
        by (rule distinct_insert_at)
      moreover have "\<forall>d \<in> set (children (?s' ! p)). p < d \<and> d < length ?s' \<and> parent (?s' ! d) = Some p"
      proof
        fix d assume d: "d \<in> set (children (?s' ! p))"
        show "p < d \<and> d < length ?s' \<and> parent (?s' ! d) = Some p"
        proof (cases "d = c")
          case True
          with pc pac len show ?thesis by simp
        next
          case False
          with d setp have "d \<in> set ?cs" by simp
          with wf_childD[OF wf p] pao[OF False] len show ?thesis by simp
        qed
      qed
      ultimately show ?thesis using True chp by simp
    next
      case False
      have "d \<noteq> c" if "d \<in> set (children (s ! b))" for d
        using wf_childD[OF wf b that] orphan by auto
      then show ?thesis using False wf_childD[OF wf b] wf_distinctD[OF wf b] cho[OF False b]
          pao len by auto
    qed
  next
    fix d assume "d < length ?s'"
    then have d: "d < length s" using len by simp
    show "case parent (?s' ! d) of None \<Rightarrow> True
      | Some q \<Rightarrow> q < length ?s' \<and> d \<in> set (children (?s' ! q))"
    proof (cases "d = c")
      case True
      then show ?thesis using pac setp p len by simp
    next
      case False
      show ?thesis
      proof (cases "parent (s ! d)")
        case None
        then show ?thesis using pao[OF False d] by simp
      next
        case (Some q)
        with wf_parent_caseD[OF wf d] have q: "q < length s" "d \<in> set (children (s ! q))"
          by simp_all
        then have "d \<in> set (children (?s' ! q))" using setp cho by (cases "q = p") auto
        with Some q pao[OF False d] len show ?thesis by simp
      qed
    qed
  qed
qed

lemma append_child_insert_child:
  "append_child p c s = insert_child p (length (children (s ! p))) c s"
  by (simp add: append_child_def insert_child_def)

lemma wf_append_child:
  "wf_store s \<Longrightarrow> p < c \<Longrightarrow> c < length s \<Longrightarrow> parent (s ! c) = None \<Longrightarrow>
     wf_store (append_child p c s)"
  by (simp add: append_child_insert_child wf_insert_child)

lemma wf_remove_child:
  assumes wf: "wf_store s" and p: "p < length s" and r: "remove_child p c s = Inr s'"
  shows "wf_store s'"
proof -
  let ?cs = "children (s ! p)"
  from r have cin: "c \<in> set ?cs" by (simp add: remove_child_def split: if_splits)
  with wf_childD[OF wf p] have pc: "p < c" "c < length s" "parent (s ! c) = Some p" by auto
  from r cin have s': "s' = s[p := (s ! p)\<lparr>children := removeAll c ?cs\<rparr>,
      c := (s[p := (s ! p)\<lparr>children := removeAll c ?cs\<rparr>] ! c)\<lparr>parent := None\<rparr>]"
    by (simp add: remove_child_def Let_def)
  have len: "length s' = length s" by (simp add: s')
  have chp: "children (s' ! p) = removeAll c ?cs"
    using pc by (simp add: s' nth_list_update)
  have cho: "children (s' ! b) = children (s ! b)" if "b \<noteq> p" "b < length s" for b
    using that pc by (cases "b = c") (simp_all add: s' nth_list_update)
  have pac: "parent (s' ! c) = None" using pc by (simp add: s')
  have pao: "parent (s' ! b) = parent (s ! b)" if "b \<noteq> c" "b < length s" for b
    using that pc by (simp add: s' nth_list_update)
  show ?thesis
  proof (rule wf_storeI)
    fix b assume "b < length s'"
    then have b: "b < length s" using len by simp
    have "children (s' ! b) = (if b = p then removeAll c ?cs else children (s ! b))"
      using chp cho[OF _ b] by simp
    moreover have "d \<noteq> c" if "d \<in> set (children (s' ! b))" for d
    proof (cases "b = p")
      case True with that chp show ?thesis by simp
    next
      case False
      with that cho[OF False b] wf_childD[OF wf b] pc show ?thesis by auto
    qed
    ultimately show "distinct (children (s' ! b)) \<and>
      (\<forall>d \<in> set (children (s' ! b)). b < d \<and> d < length s' \<and> parent (s' ! d) = Some b)"
      using wf_childD[OF wf b] wf_distinctD[OF wf b] pao len
      by (auto simp: distinct_removeAll split: if_splits)
  next
    fix d assume "d < length s'"
    then have d: "d < length s" using len by simp
    show "case parent (s' ! d) of None \<Rightarrow> True
      | Some q \<Rightarrow> q < length s' \<and> d \<in> set (children (s' ! q))"
    proof (cases "d = c")
      case True
      then show ?thesis using pac by simp
    next
      case False
      show ?thesis
      proof (cases "parent (s ! d)")
        case None
        then show ?thesis using pao[OF False d] by simp
      next
        case (Some q)
        with wf_parent_caseD[OF wf d] have q: "q < length s" "d \<in> set (children (s ! q))"
          by simp_all
        then have "d \<in> set (children (s' ! q))" using chp cho False by (cases "q = p") auto
        with Some q pao[OF False d] len show ?thesis by simp
      qed
    qed
  qed
qed

section \<open>Lemmas: how the element operations change a node\<close>

lemma length_set_attr [simp, store_simps]: "length (set_attr a k v s) = length s"
  and length_del_attr [simp, store_simps]: "length (del_attr a k s) = length s"
  and length_set_tag [simp, store_simps]: "length (set_tag a t s) = length s"
  and length_append_child [simp, store_simps]: "length (append_child p c s) = length s"
  and length_insert_child [simp, store_simps]: "length (insert_child p i c s) = length s"
  by (simp_all add: set_attr_def del_attr_def set_tag_def append_child_def insert_child_def Let_def)

lemma set_attr_fields [simp, store_simps]:
  "tag (set_attr a k v s ! b) = tag (s ! b)"
  "children (set_attr a k v s ! b) = children (s ! b)"
  "parent (set_attr a k v s ! b) = parent (s ! b)"
  "attrib (set_attr a k v s ! b) =
     (if a = b \<and> a < length s then attr_set k v (attrib (s ! b)) else attrib (s ! b))"
  by (simp_all add: set_attr_def nth_list_update_if)

lemma del_attr_fields [simp, store_simps]:
  "tag (del_attr a k s ! b) = tag (s ! b)"
  "children (del_attr a k s ! b) = children (s ! b)"
  "parent (del_attr a k s ! b) = parent (s ! b)"
  "attrib (del_attr a k s ! b) =
     (if a = b \<and> a < length s then attr_del k (attrib (s ! b)) else attrib (s ! b))"
  by (simp_all add: del_attr_def nth_list_update_if)

lemma set_tag_fields [simp, store_simps]:
  "tag (set_tag a t s ! b) = (if a = b \<and> a < length s then t else tag (s ! b))"
  "children (set_tag a t s ! b) = children (s ! b)"
  "parent (set_tag a t s ! b) = parent (s ! b)"
  "attrib (set_tag a t s ! b) = attrib (s ! b)"
  by (simp_all add: set_tag_def nth_list_update_if)

lemma insert_child_fields [simp, store_simps]:
  "tag (insert_child p i c s ! b) = tag (s ! b)"
  "attrib (insert_child p i c s ! b) = attrib (s ! b)"
  by (simp_all add: insert_child_def Let_def nth_list_update_if)

lemma insert_child_links:
  assumes "p < length s" "c < length s" "p \<noteq> c"
  shows "children (insert_child p i c s ! b) =
           (if b = p then take i (children (s ! p)) @ c # drop i (children (s ! p))
            else children (s ! b))"
    and "parent (insert_child p i c s ! b) = (if b = c then Some p else parent (s ! b))"
  using assms by (auto simp: insert_child_def Let_def nth_list_update)

lemma append_child_fields [simp, store_simps]:
  "tag (append_child p c s ! b) = tag (s ! b)"
  "attrib (append_child p c s ! b) = attrib (s ! b)"
  by (simp_all add: append_child_insert_child)

lemma append_child_links:
  assumes "p < length s" "c < length s" "p \<noteq> c"
  shows "children (append_child p c s ! b) =
           (if b = p then children (s ! p) @ [c] else children (s ! b))"
    and "parent (append_child p c s ! b) = (if b = c then Some p else parent (s ! b))"
  using insert_child_links[OF assms, of "length (children (s ! p))"] assms
  by (simp_all add: append_child_insert_child)

section \<open>Lemmas: ancestors, and document order visits each element once\<close>

lemma anc_trans: "anc s x y \<Longrightarrow> anc s y z \<Longrightarrow> anc s x z"
  by (induction rule: anc.induct) (auto intro: anc_step)

lemma wf_parent_less:
  "wf_store s \<Longrightarrow> x < length s \<Longrightarrow> parent (s ! x) = Some p \<Longrightarrow> p < x"
  using wf_parentD wf_childD by blast

lemma anc_le: "anc s x a \<Longrightarrow> wf_store s \<Longrightarrow> x < length s \<Longrightarrow> a \<le> x"
proof (induction rule: anc.induct)
  case (anc_refl a)
  then show ?case by simp
next
  case (anc_step x p a)
  then have "p < x" by (blast intro: wf_parent_less)
  with anc_step show ?case by simp
qed

lemma anc_linear: "anc s x a \<Longrightarrow> anc s x b \<Longrightarrow> anc s a b \<or> anc s b a"
proof (induction arbitrary: b rule: anc.induct)
  case (anc_refl a)
  then show ?case by simp
next
  case (anc_step x p a)
  from anc_step.prems show ?case
  proof (cases rule: anc.cases)
    case anc_refl
    with anc_step.hyps show ?thesis by (blast intro: anc.anc_step)
  next
    case (anc_step p')
    with anc_step.hyps anc_step.IH show ?thesis by simp
  qed
qed

lemma anc_proper:
  "anc s x y \<Longrightarrow> x \<noteq> y \<Longrightarrow> \<exists>p. parent (s ! x) = Some p \<and> anc s p y"
  by (induction rule: anc.induct) auto

lemma desc_anc:
  "wf_store s \<Longrightarrow> a < length s \<Longrightarrow> x \<in> set (desc n s a) \<Longrightarrow> anc s x a \<and> x < length s"
proof (induction n arbitrary: a)
  case 0
  then show ?case by simp
next
  case (Suc n)
  show ?case
  proof (cases "x = a")
    case True
    with Suc.prems show ?thesis by (simp add: anc_refl)
  next
    case False
    with Suc.prems obtain c where c: "c \<in> set (children (s ! a))" "x \<in> set (desc n s c)"
      by auto
    from wf_childD[OF Suc.prems(1,2) c(1)] have "c < length s" "parent (s ! c) = Some a"
      by auto
    with Suc.IH[OF Suc.prems(1) _ c(2)] show ?thesis
      by (blast intro: anc_trans anc_step anc_refl)
  qed
qed

lemma distinct_desc: "wf_store s \<Longrightarrow> a < length s \<Longrightarrow> distinct (desc n s a)"
proof (induction n arbitrary: a)
  case 0
  then show ?case by simp
next
  case (Suc n)
  note wf = Suc.prems(1) and a = Suc.prems(2)
  have ch: "a < c \<and> c < length s \<and> parent (s ! c) = Some a" if "c \<in> set (children (s ! a))" for c
    using wf_childD[OF wf a that] .
  have "a \<notin> set (desc n s c)" if "c \<in> set (children (s ! a))" for c
  proof
    assume "a \<in> set (desc n s c)"
    with desc_anc[OF wf] ch[OF that] have "c \<le> a" using anc_le[OF _ wf] by blast
    with ch[OF that] show False by simp
  qed
  moreover have "distinct (concat (map (desc n s) (children (s ! a))))"
  proof (rule distinct_concat_map_disjoint)
    show "distinct (children (s ! a))" by (rule wf_distinctD[OF wf a])
    show "\<forall>c \<in> set (children (s ! a)). distinct (desc n s c)"
      using Suc.IH[OF wf] ch by blast
    show "\<forall>c1 \<in> set (children (s ! a)). \<forall>c2 \<in> set (children (s ! a)). c1 \<noteq> c2 \<longrightarrow>
        set (desc n s c1) \<inter> set (desc n s c2) = {}"
    proof (intro ballI impI equals0I)
      fix c1 c2 x
      assume c1: "c1 \<in> set (children (s ! a))" and c2: "c2 \<in> set (children (s ! a))"
        and ne: "c1 \<noteq> c2" and x: "x \<in> set (desc n s c1) \<inter> set (desc n s c2)"
      from x desc_anc[OF wf] ch[OF c1] ch[OF c2]
      have "anc s x c1" "anc s x c2" by auto
      then have "anc s c1 c2 \<or> anc s c2 c1" by (rule anc_linear)
      then show False
      proof
        assume "anc s c1 c2"
        from anc_proper[OF this ne] ch[OF c1] have "anc s a c2" by auto
        with anc_le[OF _ wf] a ch[OF c2] show False by fastforce
      next
        assume "anc s c2 c1"
        from anc_proper[OF this ne[symmetric]] ch[OF c2] have "anc s a c1" by auto
        with anc_le[OF _ wf] a ch[OF c1] show False by fastforce
      qed
    qed
  qed
  ultimately show ?case by auto
qed

lemma distinct_iter: "wf_store s \<Longrightarrow> a < length s \<Longrightarrow> distinct (iter s a)"
  by (simp add: iter_def distinct_desc)

section \<open>Lemmas: readback frame, allocated root\<close>

lemma to_xml_frame:
  "(\<forall>b \<in> set (desc n s a). tag (s' ! b) = tag (s ! b) \<and> attrib (s' ! b) = attrib (s ! b) \<and>
      children (s' ! b) = children (s ! b)) \<Longrightarrow> to_xml n s' a = to_xml n s a"
proof (induction n arbitrary: a)
  case 0
  then show ?case by simp
next
  case (Suc n)
  have "to_xml n s' c = to_xml n s c" if "c \<in> set (children (s ! a))" for c
    using Suc.prems that by (intro Suc.IH) auto
  with Suc.prems show ?case by (simp cong: map_cong)
qed

lemma desc_range:
  "wf_store s \<Longrightarrow> a < length s \<Longrightarrow> b \<in> set (desc n s a) \<Longrightarrow> a \<le> b \<and> b < length s"
  using desc_anc anc_le by blast


lemma alloc_root_fields:
  "tag (alloc p x b ! 0) = (case x of Element t _ _ \<Rightarrow> t) \<and>
   attrib (alloc p x b ! 0) = xml_attrs x \<and> parent (alloc p x b ! 0) = p"
  by (cases x) (simp add: Let_def split: prod.split)

section \<open>Lemmas: removal, subtree closure, totality of readback\<close>

lemma remove_child_Inr:
  assumes wf: "wf_store s" and e: "e < length s" and p: "parent (s ! e) = Some p"
  shows "\<exists>s'. remove_child p e s = Inr s' \<and> wf_store s' \<and> length s' = length s \<and>
    (\<forall>b. tag (s' ! b) = tag (s ! b) \<and> attrib (s' ! b) = attrib (s ! b)) \<and>
    (\<forall>b < length s. children (s' ! b) = filter (\<lambda>c. c \<noteq> e) (children (s ! b))) \<and>
    (\<forall>x. x \<noteq> e \<longrightarrow> parent (s' ! x) = parent (s ! x))"
proof -
  from wf_parentD[OF wf e p] have pl: "p < length s" and ein: "e \<in> set (children (s ! p))" by auto
  have pe: "p \<noteq> e" using wf_parent_less[OF wf e p] by simp
  define s1 where "s1 = s[p := (s ! p)\<lparr>children := removeAll e (children (s ! p))\<rparr>]"
  define s' where "s' = s1[e := (s1 ! e)\<lparr>parent := None\<rparr>]"
  have r: "remove_child p e s = Inr s'" using ein by (simp add: remove_child_def s'_def s1_def Let_def)
  have l: "length s' = length s" by (simp add: s'_def s1_def)
  have f: "tag (s' ! b) = tag (s ! b) \<and> attrib (s' ! b) = attrib (s ! b)" for b
    by (simp add: s'_def s1_def nth_list_update_if)
  have pa: "parent (s' ! x) = parent (s ! x)" if "x \<noteq> e" for x
    using that by (simp add: s'_def s1_def nth_list_update_if)
  have cb: "children (s' ! b) = (if b = p then removeAll e (children (s ! p)) else children (s ! b))" for b
    using pl pe by (simp add: s'_def s1_def nth_list_update_if)
  have other: "e \<notin> set (children (s ! b))" if "b < length s" "b \<noteq> p" for b
  proof
    assume "e \<in> set (children (s ! b))"
    with wf_childD[OF wf that(1)] have "parent (s ! e) = Some b" by blast
    with p that(2) show False by simp
  qed
  have ch: "children (s' ! b) = filter (\<lambda>c. c \<noteq> e) (children (s ! b))" if "b < length s" for b
  proof (cases "b = p")
    case True
    then show ?thesis by (simp add: cb removeAll_filter)
  next
    case False
    from other[OF that False] have "filter (\<lambda>c. c \<noteq> e) (children (s ! b)) = children (s ! b)"
      by (auto simp: filter_id_conv)
    with False show ?thesis by (simp add: cb)
  qed
  have "wf_store s'" using wf_remove_child[OF wf pl r] .
  with r l f pa ch show ?thesis by blast
qed

lemma desc_child:
  "b \<in> set (desc n s a) \<Longrightarrow> c \<in> set (children (s ! b)) \<Longrightarrow> c \<in> set (desc (Suc n) s a)"
proof (induction n arbitrary: a)
  case 0
  then show ?case by simp
next
  case (Suc n)
  show ?case
  proof (cases "b = a")
    case True
    with Suc.prems(2) show ?thesis by (cases n) auto
  next
    case False
    with Suc.prems(1) obtain a' where a': "a' \<in> set (children (s ! a))" and b: "b \<in> set (desc n s a')"
      by auto
    from Suc.IH[OF b Suc.prems(2)] a' show ?thesis by auto
  qed
qed

lemma iter_child:
  assumes wf: "wf_store s" and a: "a < length s" and b: "b \<in> set (iter s a)"
    and c: "c \<in> set (children (s ! b))"
  shows "c \<in> set (iter s a)"
proof -
  from desc_child[OF b[unfolded iter_def] c] have "c \<in> set (desc (Suc (length s)) s a)" .
  then show ?thesis
    unfolding iter_def using desc_fuel[OF wf a, of "Suc (length s)" "length s"] by (simp del: desc.simps)
qed

lemma iter_parent:
  "wf_store s \<Longrightarrow> a < length s \<Longrightarrow> b \<in> set (iter s a) \<Longrightarrow> b \<noteq> a \<Longrightarrow> \<exists>p. parent (s ! b) = Some p"
  unfolding iter_def using desc_anc anc_proper by blast

lemma to_xml_attrs: "to_xml n s c = Some y \<Longrightarrow> xml_attrs y = attrib (s ! c)"
  by (cases n) auto

lemma tree_of_total: "wf_store s \<Longrightarrow> a < length s \<Longrightarrow> \<exists>x. tree_of s a = Some x"
  unfolding tree_of_def using to_xml_total[OF _ _ diff_le_self] by blast

lemma tree_of_new_tree: "tree_of (snd (new_tree x [])) 0 = Some x"
  using alloc_to_xml[of "[]" 0 None x "length (alloc None x 0)" "[]"] by (simp add: tree_of_def new_tree_def)

lemma wf_new_tree: "wf_store (snd (new_tree x [])) \<and> 0 < length (snd (new_tree x [])) \<and>
    parent (snd (new_tree x []) ! 0) = None"
proof -
  have "wf_store []" by (simp add: wf_store_def)
  from new_tree_wf[OF this, of x "fst (new_tree x [])" "snd (new_tree x [])"] show ?thesis
    by (simp add: new_tree_def)
qed

end
