(* ===== verification/Template.thy ===== *)
theory Template
  imports Etree
begin

text \<open>
  The class \<open>Template\<close> of \<open>src/svgcomposer/svglue.py\<close>: a parsed SVG document
  with a cache of the elements found by identifier and of the definitions
  container, and the rewriting of a placeholder rectangle into a \<open>use\<close> of an
  appended fragment (the removal of layout elements is in \<open>Layout\<close>, loading
  and rendering in \<open>Render\<close>). Each method takes the object's state
  and returns its result and the new state, or the exception it raises together
  with the state at the raise (the object keeps mutations made before it).
  \<open>uuid4\<close> is modelled by a counter: the \<open>n\<close>-th identifier generated is
  \<open>uuid_str n\<close>, distinct for distinct \<open>n\<close>.
\<close>

section \<open>Constants\<close>

definition SVG_NS :: string where
  "SVG_NS = ''http://www.w3.org/2000/svg''"

definition INKSCAPE_NS :: string where
  "INKSCAPE_NS = ''http://www.inkscape.org/namespaces/inkscape''"

definition RECT_TAG :: string where
  "RECT_TAG = ''{http://www.w3.org/2000/svg}rect''"

definition USE_TAG :: string where
  "USE_TAG = ''{http://www.w3.org/2000/svg}use''"

definition HREF_ATTR :: string where
  "HREF_ATTR = ''{http://www.w3.org/1999/xlink}href''"

text \<open>The names the XPath queries and the element constructor spell out.\<close>

definition SVG_TAG :: string where
  "SVG_TAG = ''{'' @ SVG_NS @ ''}svg''"

definition DEFS_TAG :: string where
  "DEFS_TAG = ''{'' @ SVG_NS @ ''}defs''"

definition LABEL_ATTR :: string where
  "LABEL_ATTR = ''{'' @ INKSCAPE_NS @ ''}label''"

definition ALLOWED_ATTRS :: "string list" where
  "ALLOWED_ATTRS = [''x'', ''y'']"

section \<open>Generated identifiers\<close>

fun dec_digits :: "nat \<Rightarrow> string" where
  "dec_digits n =
     (if n < 10 then [char_of (48 + n)]
      else dec_digits (n div 10) @ [char_of (48 + n mod 10)])"

definition uuid_str :: "nat \<Rightarrow> string" where
  "uuid_str n = ''uuid-'' @ dec_digits n"

text \<open>Reading the decimal digits back (used to show that generated identifiers differ).\<close>

definition parse_dec :: "string \<Rightarrow> nat" where
  "parse_dec cs = foldl (\<lambda>acc c. 10 * acc + (of_char c - 48)) 0 cs"

section \<open>The template object\<close>

text \<open>
  \<open>Template.load\<close> builds the object from \<open>etree.fromstring\<close> (an element) or
  from \<open>etree.parse\<close> (an element tree); the two kinds differ in \<open>getroot\<close>.
\<close>

datatype doc_kind = FromString | FromFile

record template =
  store :: store
  root :: addr
  doc_kind :: doc_kind
  tid_cache :: "(string \<times> addr) list"
  defs :: "addr option"
  uuid_state :: nat

definition uuid4 :: "template \<Rightarrow> string \<times> template" where
  "uuid4 t = (uuid_str (uuid_state t), t\<lparr>uuid_state := Suc (uuid_state t)\<rparr>)"

definition init_template :: "store \<Rightarrow> addr \<Rightarrow> doc_kind \<Rightarrow> nat \<Rightarrow> template" where
  "init_template s r k u =
     \<lparr>store = s, root = r, doc_kind = k, tid_cache = [], defs = None, uuid_state = u\<rparr>"

section \<open>Lookup by identifier\<close>

text \<open>
  \<open>//*[@id='tid']\<close>: the elements of the document, in document order, whose
  \<open>id\<close> is \<open>tid\<close>. The query is built by string interpolation; an identifier
  holding a quote makes it another XPath expression, either malformed (lxml raises
  \<open>XPathEvalError\<close>) or a different valid query such as the one built from
  \<open>x' or @id='y\<close>, which matches other elements. The model does not evaluate
  such expressions: it raises \<open>XPathEvalError\<close> for every identifier with a
  quote, so it is faithful for quote-free identifiers only, the case C1 states.
\<close>

definition id_query :: "store \<Rightarrow> addr \<Rightarrow> string \<Rightarrow> addr list" where
  "id_query s r tid = filter (\<lambda>a. get_attr s a ''id'' = Some tid) (iter s r)"

definition get_by_id :: "string \<Rightarrow> template \<Rightarrow> (addr, template) exc" where
  "get_by_id tid t =
     (case map_of (tid_cache t) tid of
        Some e \<Rightarrow> Inr (e, t)
      | None \<Rightarrow>
          (if CHR 0x27 \<in> set tid then Inl (XPathEvalError, t)
           else
             (case id_query (store t) (root t) tid of
                [e] \<Rightarrow> Inr (e, t\<lparr>tid_cache := AList.update tid e (tid_cache t)\<rparr>)
              | _ \<Rightarrow> Inl (LookupError tid, t))))"

section \<open>The definitions container\<close>

text \<open>\<open>/svg:svg/svg:defs\<close>: the \<open>defs\<close> children of an \<open>svg\<close> root.\<close>

definition defs_query :: "store \<Rightarrow> addr \<Rightarrow> addr list" where
  "defs_query s r =
     (if tag (s ! r) = SVG_TAG then filter (\<lambda>c. tag (s ! c) = DEFS_TAG) (children (s ! r))
      else [])"

text \<open>
  Without a \<open>defs\<close> element the code calls \<open>self._doc.getroot()\<close>: an element
  (from \<open>fromstring\<close>) has no such method; an element tree inserts a new
  \<open>defs\<close> as first child of the root, but \<open>insert\<close> returns \<open>None\<close>, which
  becomes the cached and returned value.
\<close>

definition get_defs :: "template \<Rightarrow> (addr option, template) exc" where
  "get_defs t =
     (case defs t of
        Some d \<Rightarrow> Inr (Some d, t)
      | None \<Rightarrow>
          (case defs_query (store t) (root t) of
             d # _ \<Rightarrow> Inr (Some d, t\<lparr>defs := Some d\<rparr>)
           | [] \<Rightarrow>
               (case doc_kind t of
                  FromString \<Rightarrow> Inl (AttributeError ''getroot'', t)
                | FromFile \<Rightarrow>
                    (let (d, s1) = new_tree (Element DEFS_TAG [] []) (store t);
                         s2 = insert_child (root t) 0 d s1
                     in Inr (None, t\<lparr>store := s2, defs := None\<rparr>)))))"

section \<open>Replacing a placeholder\<close>

text \<open>\<open>tree.set(k, v)\<close> on the root of a parsed fragment, before it is appended.\<close>

fun xml_set :: "string \<Rightarrow> string \<Rightarrow> xml \<Rightarrow> xml" where
  "xml_set k v (Element tg as cs) = Element tg (attr_set k v as) cs"

text \<open>The loop over \<open>elem.attrib.keys()\<close> deleting the keys outside \<open>ALLOWED_ATTRS\<close>.\<close>

fun strip_attrs :: "addr \<Rightarrow> string list \<Rightarrow> store \<Rightarrow> store" where
  "strip_attrs e [] s = s"
| "strip_attrs e (k # ks) s =
     strip_attrs e ks (if k \<in> set ALLOWED_ATTRS then s else del_attr e k s)"

text \<open>
  The store after the successful part of \<open>replace_rect_with_etree\<close>: the prepared
  fragment appended to the definitions container, the placeholder turned into a
  \<open>use\<close> element with its new identifier, stripped attributes and reference.
\<close>

definition use_fragment :: "addr \<Rightarrow> addr \<Rightarrow> xml \<Rightarrow> string \<Rightarrow> string \<Rightarrow> store \<Rightarrow> store" where
  "use_fragment elem d tree3 doc_id new_id s =
     (let (f, s4) = new_tree tree3 s;
          s5 = append_child d f s4;
          s6 = set_tag elem USE_TAG s5;
          s7 = set_attr elem ''id'' new_id s6;
          s8 = strip_attrs elem (map fst (attrib (s7 ! elem))) s7
      in set_attr elem HREF_ATTR (''#'' @ doc_id) s8)"

definition replace_rect_with_etree :: "string \<Rightarrow> xml \<Rightarrow> template \<Rightarrow> (unit, template) exc" where
  "replace_rect_with_etree tid tree t0 =
     (case get_by_id tid t0 of
        Inl err \<Rightarrow> Inl err
      | Inr (elem, t1) \<Rightarrow>
          (let (doc_id, t2) = uuid4 t1;
               tree1 = xml_set ''id'' doc_id tree
           in case get_attr (store t2) elem ''height'' of
                None \<Rightarrow> Inl (KeyError ''height'', t2)
              | Some h \<Rightarrow>
                  (let tree2 = xml_set ''height'' h tree1
                   in case get_attr (store t2) elem ''width'' of
                        None \<Rightarrow> Inl (KeyError ''width'', t2)
                      | Some w \<Rightarrow>
                          (let tree3 = xml_set ''width'' w tree2
                           in case get_defs t2 of
                                Inl err \<Rightarrow> Inl err
                              | Inr (None, t3) \<Rightarrow> Inl (AttributeError ''append'', t3)
                              | Inr (Some d, t3) \<Rightarrow>
                                  (let (f, s4) = new_tree tree3 (store t3);
                                       s5 = append_child d f s4;
                                       s6 = set_tag elem USE_TAG s5;
                                       (new_id, t4) = uuid4 (t3\<lparr>store := s6\<rparr>);
                                       s7 = set_attr elem ''id'' new_id (store t4);
                                       s8 = strip_attrs elem (map fst (attrib (s7 ! elem))) s7;
                                       s9 = set_attr elem HREF_ATTR (''#'' @ doc_id) s8
                                   in Inr ((), t4\<lparr>store := s9\<rparr>))))))"

text \<open>
  \<open>replace_rect_with_svg_string\<close> (through \<open>replace_rect_with_svg_bytes\<close>) parses
  the fragment first. The parser is a parameter from the fragment's text, of any
  type \<open>'txt\<close>: it stands for \<open>etree.fromstring\<close> applied to the UTF-8 encoding of
  the text (\<open>svg.encode("utf-8")\<close>, line 100), so the encoding step and its
  \<open>UnicodeEncodeError\<close> on a lone surrogate are part of the parameter.
\<close>

definition replace_rect_with_svg_string ::
  "('txt \<Rightarrow> py_error + xml) \<Rightarrow> string \<Rightarrow> 'txt \<Rightarrow> template \<Rightarrow> (unit, template) exc" where
  "replace_rect_with_svg_string fromstring tid svg t =
     (case fromstring svg of
        Inl err \<Rightarrow> Inl (err, t)
      | Inr tree \<Rightarrow> replace_rect_with_etree tid tree t)"

section \<open>Serialisation\<close>

text \<open>\<open>Template.tostring\<close>: the document read back as a tree.\<close>

definition tostring :: "template \<Rightarrow> xml option" where
  "tostring t = tree_of (store t) (root t)"

section \<open>The invariant of a template\<close>

text \<open>
  The store is well formed, the root is an element without parent, and every
  cached element (by identifier or as the definitions container) is an element
  of the store.
\<close>

definition template_ok :: "template \<Rightarrow> bool" where
  "template_ok t \<longleftrightarrow>
     wf_store (store t) \<and> root t < length (store t) \<and> parent (store t ! root t) = None \<and>
     list_all (\<lambda>(_, e). e < length (store t)) (tid_cache t) \<and>
     pred_option (\<lambda>d. d < length (store t)) (defs t)"

section \<open>Lemmas: lookup by identifier\<close>

lemma get_by_id_Inl: "get_by_id tid t = Inl (err, t') \<Longrightarrow> t' = t"
  by (auto simp: get_by_id_def split: option.splits if_splits list.splits)

lemma get_by_id_Inr:
  "get_by_id tid t = Inr (e, t') \<Longrightarrow>
     t' = t\<lparr>tid_cache := tid_cache t'\<rparr> \<and> map_of (tid_cache t') tid = Some e \<and>
     (map_of (tid_cache t) tid = Some e \<and> t' = t \<or>
      map_of (tid_cache t) tid = None \<and> CHR 0x27 \<notin> set tid \<and>
      id_query (store t) (root t) tid = [e] \<and>
      tid_cache t' = AList.update tid e (tid_cache t))"
  by (auto simp: get_by_id_def update_conv' split: option.splits if_splits list.splits)

lemma id_query_mem:
  "template_ok t \<Longrightarrow> a \<in> set (id_query (store t) (root t) tid) \<Longrightarrow> a < length (store t)"
  unfolding template_ok_def id_query_def iter_def using desc_anc by auto

lemma template_ok_get_by_id:
  assumes ok: "template_ok t" and g: "get_by_id tid t = Inr (e, t')"
  shows "template_ok t' \<and> e < length (store t)"
proof -
  from get_by_id_Inr[OF g] have t': "t' = t\<lparr>tid_cache := tid_cache t'\<rparr>"
    and cases: "map_of (tid_cache t) tid = Some e \<and> t' = t \<or>
      id_query (store t) (root t) tid = [e] \<and> tid_cache t' = AList.update tid e (tid_cache t)"
    by blast+
  have cache: "list_all (\<lambda>(_, a). a < length (store t)) (tid_cache t)"
    using ok by (simp add: template_ok_def split: option.splits)
  have e: "e < length (store t)"
    using cases
  proof
    assume "map_of (tid_cache t) tid = Some e \<and> t' = t"
    then have "(tid, e) \<in> set (tid_cache t)" by (auto dest: map_of_SomeD)
    with cache show ?thesis by (auto simp: list_all_iff)
  next
    assume "id_query (store t) (root t) tid = [e] \<and> tid_cache t' = AList.update tid e (tid_cache t)"
    with id_query_mem[OF ok, of e tid] show ?thesis by simp
  qed
  have "list_all (\<lambda>(_, a). a < length (store t)) (tid_cache t')"
    using cases
  proof
    assume "map_of (tid_cache t) tid = Some e \<and> t' = t"
    with cache show ?thesis by simp
  next
    assume "id_query (store t) (root t) tid = [e] \<and> tid_cache t' = AList.update tid e (tid_cache t)"
    with cache e show ?thesis
      using set_alist_update[of tid e "tid_cache t"] by (auto simp: list_all_iff)
  qed
  then have "template_ok (t\<lparr>tid_cache := tid_cache t'\<rparr>)"
    using ok by (simp add: template_ok_def split: option.splits)
  with e t' show ?thesis by simp
qed

lemma get_by_id_query:
  "map_of (tid_cache t) tid = None \<Longrightarrow> CHR 0x27 \<notin> set tid \<Longrightarrow>
     get_by_id tid t =
       (case id_query (store t) (root t) tid of
          [e] \<Rightarrow> Inr (e, t\<lparr>tid_cache := AList.update tid e (tid_cache t)\<rparr>)
        | _ \<Rightarrow> Inl (LookupError tid, t))"
  by (simp add: get_by_id_def)

lemma distinct_iter_root: "template_ok t \<Longrightarrow> distinct (iter (store t) (root t))"
  by (simp add: template_ok_def distinct_iter)

text \<open>
  C1: on a cache miss, \<open>get_by_id\<close> succeeds exactly when one element of the
  document carries the identifier, returns that element and caches it.
\<close>

theorem get_by_id_unique:
  assumes ok: "template_ok t" and miss: "map_of (tid_cache t) tid = None"
    and nq: "CHR 0x27 \<notin> set tid"
  shows "get_by_id tid t = Inr (e, t') \<longleftrightarrow>
    e \<in> set (iter (store t) (root t)) \<and> get_attr (store t) e ''id'' = Some tid \<and>
    (\<forall>a \<in> set (iter (store t) (root t)). get_attr (store t) a ''id'' = Some tid \<longrightarrow> a = e) \<and>
    t' = t\<lparr>tid_cache := AList.update tid e (tid_cache t)\<rparr>"
proof -
  have single: "id_query (store t) (root t) tid = [e] \<longleftrightarrow>
      e \<in> set (iter (store t) (root t)) \<and> get_attr (store t) e ''id'' = Some tid \<and>
      (\<forall>a \<in> set (iter (store t) (root t)). get_attr (store t) a ''id'' = Some tid \<longrightarrow> a = e)"
    unfolding id_query_def by (rule filter_eq_single_iff[OF distinct_iter_root[OF ok]])
  show ?thesis
  proof
    assume "get_by_id tid t = Inr (e, t')"
    with get_by_id_query[OF miss nq] single show "e \<in> set (iter (store t) (root t)) \<and>
      get_attr (store t) e ''id'' = Some tid \<and>
      (\<forall>a \<in> set (iter (store t) (root t)). get_attr (store t) a ''id'' = Some tid \<longrightarrow> a = e) \<and>
      t' = t\<lparr>tid_cache := AList.update tid e (tid_cache t)\<rparr>"
      by (auto split: list.splits)
  next
    assume "e \<in> set (iter (store t) (root t)) \<and> get_attr (store t) e ''id'' = Some tid \<and>
      (\<forall>a \<in> set (iter (store t) (root t)). get_attr (store t) a ''id'' = Some tid \<longrightarrow> a = e) \<and>
      t' = t\<lparr>tid_cache := AList.update tid e (tid_cache t)\<rparr>"
    with get_by_id_query[OF miss nq] single show "get_by_id tid t = Inr (e, t')" by simp
  qed
qed

text \<open>
  C2: on a cache miss, when no element or more than one element carries the
  identifier, \<open>get_by_id\<close> raises \<open>LookupError\<close> and changes nothing.
\<close>

theorem get_by_id_lookup_error:
  assumes ok: "template_ok t" and miss: "map_of (tid_cache t) tid = None"
    and nq: "CHR 0x27 \<notin> set tid"
    and n: "card {a \<in> set (iter (store t) (root t)). get_attr (store t) a ''id'' = Some tid} \<noteq> 1"
  shows "get_by_id tid t = Inl (LookupError tid, t)"
proof -
  have "length (id_query (store t) (root t) tid) \<noteq> 1"
    using n length_filter_distinct[OF distinct_iter_root[OF ok]] by (simp add: id_query_def)
  then show ?thesis using get_by_id_query[OF miss nq]
    by (auto split: list.splits)
qed

section \<open>Lemmas: the definitions container and the rewriting\<close>

lemma strip_attrs_fields:
  "tag (strip_attrs e ks s ! b) = tag (s ! b) \<and>
   children (strip_attrs e ks s ! b) = children (s ! b) \<and>
   parent (strip_attrs e ks s ! b) = parent (s ! b) \<and>
   length (strip_attrs e ks s) = length s \<and>
   attrib (strip_attrs e ks s ! b) =
     (if b = e \<and> e < length s
      then filter (\<lambda>(k, _). k \<in> set ALLOWED_ATTRS \<or> k \<notin> set ks) (attrib (s ! b))
      else attrib (s ! b))"
proof (induction ks arbitrary: s)
  case Nil
  then show ?case by auto
next
  case (Cons k ks)
  then show ?case
    by (auto simp: attr_del_def intro!: filter_cong)
qed

lemma wf_strip_attrs: "wf_store s \<Longrightarrow> e < length s \<Longrightarrow> wf_store (strip_attrs e ks s)"
  by (induction ks arbitrary: s) (simp_all add: wf_del_attr)

lemma defs_query_mem:
  "template_ok t \<Longrightarrow> d \<in> set (defs_query (store t) (root t)) \<Longrightarrow>
     d < length (store t) \<and> tag (store t ! d) = DEFS_TAG \<and> parent (store t ! d) = Some (root t)"
  unfolding template_ok_def defs_query_def
  by (auto dest: wf_childD split: if_splits)

lemma get_defs_Some:
  "get_defs t = Inr (Some d, t') \<Longrightarrow>
     t' = t\<lparr>defs := Some d\<rparr> \<and>
     (defs t = Some d \<or> defs t = None \<and> d \<in> set (defs_query (store t) (root t)))"
  by (auto simp: get_defs_def split: option.splits list.splits doc_kind.splits prod.splits)

lemma get_defs_None:
  "get_defs t = Inr (None, t') \<Longrightarrow>
     defs t = None \<and> defs_query (store t) (root t) = [] \<and> doc_kind t = FromFile \<and>
     t' = t\<lparr>store := insert_child (root t) 0 (length (store t))
             (store t @ [\<lparr>tag = DEFS_TAG, attrib = [], children = [], parent = None\<rparr>])\<rparr>"
  by (auto simp: get_defs_def new_tree_def split: option.splits list.splits doc_kind.splits)

lemma get_defs_Inl:
  "get_defs t = Inl (err, t') \<Longrightarrow>
     t' = t \<and> err = AttributeError ''getroot'' \<and> defs t = None \<and>
     defs_query (store t) (root t) = [] \<and> doc_kind t = FromString"
  by (auto simp: get_defs_def split: option.splits list.splits doc_kind.splits prod.splits)

lemma template_ok_get_defs:
  assumes ok: "template_ok t" and g: "get_defs t = Inr (r, t')"
  shows "template_ok t' \<and> (\<forall>d. r = Some d \<longrightarrow> d < length (store t'))"
proof (cases r)
  case (Some d)
  with g have t': "t' = t\<lparr>defs := Some d\<rparr>"
    and d: "defs t = Some d \<or> defs t = None \<and> d \<in> set (defs_query (store t) (root t))"
    using get_defs_Some by blast+
  have "d < length (store t)"
    using d
  proof
    assume "defs t = Some d" with ok show ?thesis by (simp add: template_ok_def)
  next
    assume "defs t = None \<and> d \<in> set (defs_query (store t) (root t))"
    with defs_query_mem[OF ok] show ?thesis by blast
  qed
  with ok t' Some show ?thesis by (simp add: template_ok_def)
next
  case None
  let ?s = "store t" and ?n = "\<lparr>tag = DEFS_TAG, attrib = [], children = [], parent = None\<rparr>"
  from None g get_defs_None have t': "t' = t\<lparr>store := insert_child (root t) 0 (length ?s) (?s @ [?n])\<rparr>"
    by blast
  have nt: "new_tree (Element DEFS_TAG [] []) ?s = (length ?s, ?s @ [?n])"
    by (simp add: new_tree_def)
  from ok have wf: "wf_store ?s" and r: "root t < length ?s" and pr: "parent (?s ! root t) = None"
    by (simp_all add: template_ok_def)
  from new_tree_wf[OF wf nt] have wf1: "wf_store (?s @ [?n])" by simp
  have wf2: "wf_store (insert_child (root t) 0 (length ?s) (?s @ [?n]))"
    using r by (intro wf_insert_child[OF wf1]) (simp_all add: nth_append)
  have "parent (insert_child (root t) 0 (length ?s) (?s @ [?n]) ! root t) = None"
    using r pr by (simp add: insert_child_links nth_append)
  moreover from None g get_defs_None have "defs t = None" by blast
  ultimately show ?thesis using ok wf2 r t' None
    by (auto simp: template_ok_def list_all_iff)
qed

lemma replace_rect_with_etree_Inr:
  assumes r: "replace_rect_with_etree tid tree t = Inr (u, t')"
  obtains e t1 h w d where
    "get_by_id tid t = Inr (e, t1)"
    "get_attr (store t) e ''height'' = Some h" "get_attr (store t) e ''width'' = Some w"
    "get_defs (t1\<lparr>uuid_state := Suc (uuid_state t)\<rparr>) =
       Inr (Some d, t1\<lparr>uuid_state := Suc (uuid_state t), defs := Some d\<rparr>)"
    "store t' = use_fragment e d
          (xml_set ''width'' w (xml_set ''height'' h (xml_set ''id'' (uuid_str (uuid_state t)) tree)))
          (uuid_str (uuid_state t)) (uuid_str (Suc (uuid_state t))) (store t)"
    "uuid_state t' = Suc (Suc (uuid_state t))" "defs t' = Some d" "root t' = root t"
    "doc_kind t' = doc_kind t" "tid_cache t' = tid_cache t1"
proof -
  from r obtain e t1 where g: "get_by_id tid t = Inr (e, t1)"
    by (auto simp: replace_rect_with_etree_def split: sum.splits prod.splits)
  from get_by_id_Inr[OF g] have t1: "store t1 = store t" "uuid_state t1 = uuid_state t"
    by (metis template.select_convs(1,6) template.surjective template.update_convs(4))+
  from r g t1 obtain h w where h: "get_attr (store t) e ''height'' = Some h"
    and w: "get_attr (store t) e ''width'' = Some w"
    by (auto simp: replace_rect_with_etree_def uuid4_def Let_def split: option.splits)
  from r g t1 h w obtain d t3 where
    gd: "get_defs (t1\<lparr>uuid_state := Suc (uuid_state t)\<rparr>) = Inr (Some d, t3)"
    by (auto simp: replace_rect_with_etree_def uuid4_def Let_def
        split: sum.splits option.splits prod.splits)
  from get_defs_Some[OF gd] have t3: "t3 = t1\<lparr>uuid_state := Suc (uuid_state t), defs := Some d\<rparr>"
    by simp
  from r g t1 h w gd t3 have t': "t' = t1\<lparr>uuid_state := Suc (Suc (uuid_state t)), defs := Some d,
        store := use_fragment e d
          (xml_set ''width'' w (xml_set ''height'' h (xml_set ''id'' (uuid_str (uuid_state t)) tree)))
          (uuid_str (uuid_state t)) (uuid_str (Suc (uuid_state t))) (store t)\<rparr>"
    by (auto simp: replace_rect_with_etree_def uuid4_def Let_def use_fragment_def
        simp del: store_simps alist_simps split: prod.splits)
  from get_by_id_Inr[OF g] have "root t1 = root t" "doc_kind t1 = doc_kind t"
    by (metis template.select_convs(2,3) template.surjective template.update_convs(4))+
  with t' have "store t' = use_fragment e d
          (xml_set ''width'' w (xml_set ''height'' h (xml_set ''id'' (uuid_str (uuid_state t)) tree)))
          (uuid_str (uuid_state t)) (uuid_str (Suc (uuid_state t))) (store t)"
    "uuid_state t' = Suc (Suc (uuid_state t))" "defs t' = Some d" "root t' = root t"
    "doc_kind t' = doc_kind t" "tid_cache t' = tid_cache t1"
    by simp_all
  with g h w gd t3 that show ?thesis by blast
qed

lemma use_fragment_unfold:
  "use_fragment e d x did nid s =
     (let s4 = s @ alloc None x (length s);
          s7 = set_attr e ''id'' nid (set_tag e USE_TAG (append_child d (length s) s4))
      in set_attr e HREF_ATTR (''#'' @ did) (strip_attrs e (map fst (attrib (s7 ! e))) s7))"
  by (simp add: use_fragment_def new_tree_def Let_def del: store_simps)

lemma length_use_fragment [simp]:
  "length (use_fragment e d x did nid s) = length s + length (alloc None x (length s))"
  by (simp add: use_fragment_unfold Let_def strip_attrs_fields)

lemma HREF_not_allowed: "HREF_ATTR \<notin> set ALLOWED_ATTRS" and id_not_allowed: "''id'' \<notin> set ALLOWED_ATTRS"
  by (simp_all add: HREF_ATTR_def ALLOWED_ATTRS_def)

lemma use_fragment_attrib_elem:
  assumes e: "e < length s"
  shows "attrib (use_fragment e d x did nid s ! e) =
    filter (\<lambda>(k, _). k \<in> set ALLOWED_ATTRS) (attrib (s ! e)) @ [(HREF_ATTR, ''#'' @ did)]"
proof -
  let ?A = "attrib (s ! e)" and ?P = "\<lambda>(k, _). k \<in> set ALLOWED_ATTRS"
  have s4: "attrib ((s @ alloc None x (length s)) ! e) = ?A" using e by (simp add: nth_append)
  have "filter (\<lambda>(k, _). k \<in> set ALLOWED_ATTRS \<or> k \<notin> set (map fst (attr_set ''id'' nid ?A)))
      (attr_set ''id'' nid ?A) = filter ?P ?A"
    by (simp only: filter_keys_all
        filter_attr_set_other[where P = "\<lambda>k. k \<in> set ALLOWED_ATTRS", OF id_not_allowed])
  moreover have "HREF_ATTR \<notin> set (map fst (filter ?P ?A))"
    using HREF_not_allowed by auto
  ultimately show ?thesis using e s4
    by (simp add: use_fragment_unfold Let_def strip_attrs_fields attr_set_new
        del: set_keys_attr_set keys_attr_set)
qed

lemma use_fragment_tag:
  "b < length s \<Longrightarrow> e < length s \<Longrightarrow>
     tag (use_fragment e d x did nid s ! b) = (if b = e then USE_TAG else tag (s ! b))"
  by (simp add: use_fragment_unfold Let_def strip_attrs_fields nth_append)

lemma use_fragment_attrib_other:
  "b \<noteq> e \<Longrightarrow> attrib (use_fragment e d x did nid s ! b) = attrib ((s @ alloc None x (length s)) ! b)"
  by (simp add: use_fragment_unfold Let_def strip_attrs_fields)

lemma use_fragment_links:
  assumes "d < length s" "b < length s + length (alloc None x (length s))"
  shows "children (use_fragment e d x did nid s ! b) =
           (if b = d then children (s ! d) @ [length s] else children ((s @ alloc None x (length s)) ! b))"
    and "parent (use_fragment e d x did nid s ! b) =
           (if b = length s then Some d else parent ((s @ alloc None x (length s)) ! b))"
  using assms alloc_nonempty[of None x "length s"]
  by (simp_all add: use_fragment_unfold Let_def strip_attrs_fields append_child_links nth_append)

lemma use_fragment_other:
  assumes "b < length s" "b \<noteq> e" "b \<noteq> d" "d < length s"
  shows "use_fragment e d x did nid s ! b = s ! b"
proof (rule node.equality)
  show "tag (use_fragment e d x did nid s ! b) = tag (s ! b)"
    using assms by (simp add: use_fragment_unfold Let_def strip_attrs_fields nth_append)
  show "attrib (use_fragment e d x did nid s ! b) = attrib (s ! b)"
    using assms by (simp add: use_fragment_attrib_other nth_append)
  show "children (use_fragment e d x did nid s ! b) = children (s ! b)"
    using assms use_fragment_links(1)[of d s b x e did nid] by (simp add: nth_append)
  show "parent (use_fragment e d x did nid s ! b) = parent (s ! b)"
    using assms use_fragment_links(2)[of d s b x e did nid] by (simp add: nth_append)
qed simp

lemma wf_use_fragment:
  assumes wf: "wf_store s" and e: "e < length s" and d: "d < length s"
  shows "wf_store (use_fragment e d x did nid s)"
proof -
  let ?s4 = "s @ alloc None x (length s)"
  have nt: "new_tree x s = (length s, ?s4)" by (simp add: new_tree_def)
  from new_tree_wf[OF wf nt] have wf4: "wf_store ?s4" and f: "length s < length ?s4"
    and pf: "parent (?s4 ! length s) = None" by auto
  have wf5: "wf_store (append_child d (length s) ?s4)"
    using wf_append_child[OF wf4 _ f pf] d by simp
  then show ?thesis
    using e by (simp add: use_fragment_unfold Let_def wf_set_attr wf_set_tag wf_strip_attrs strip_attrs_fields)
qed

lemma use_fragment_tree:
  assumes wf: "wf_store s" and e: "e < length s" and d: "d < length s"
  shows "tree_of (use_fragment e d x did nid s) (length s) = Some x"
proof -
  let ?s4 = "s @ alloc None x (length s)" and ?u = "use_fragment e d x did nid s"
  have nt: "new_tree x s = (length s, ?s4)" by (simp add: new_tree_def)
  from new_tree_wf[OF wf nt] have wf4: "wf_store ?s4" and f: "length s < length ?s4" by auto
  have same: "\<forall>b \<in> set (desc (length ?s4) ?s4 (length s)). tag (?u ! b) = tag (?s4 ! b) \<and>
      attrib (?u ! b) = attrib (?s4 ! b) \<and> children (?u ! b) = children (?s4 ! b)"
  proof
    fix b assume "b \<in> set (desc (length ?s4) ?s4 (length s))"
    from desc_range[OF wf4 f this] have b: "length s \<le> b" "b < length ?s4" by auto
    with e d f show "tag (?u ! b) = tag (?s4 ! b) \<and> attrib (?u ! b) = attrib (?s4 ! b) \<and>
        children (?u ! b) = children (?s4 ! b)"
      by (simp add: use_fragment_unfold Let_def strip_attrs_fields append_child_links)
  qed
  have "to_xml (length ?s4) ?s4 (length s) = Some x"
    using alloc_to_xml[of s "length s" None x "length ?s4" "[]"] by simp
  with to_xml_frame[OF same] show ?thesis by (simp add: tree_of_def)
qed

lemma parse_dec_dec_digits: "parse_dec (dec_digits n) = n"
proof (induction n rule: dec_digits.induct)
  case (1 n)
  show ?case
  proof (cases "n < 10")
    case True
    then show ?thesis by (simp add: parse_dec_def)
  next
    case False
    with "1.IH" have "parse_dec (dec_digits (n div 10)) = n div 10" by simp
    with False show ?thesis by (simp add: parse_dec_def)
  qed
qed

lemma uuid_str_inj: "uuid_str m = uuid_str n \<longleftrightarrow> m = n"
proof
  assume "uuid_str m = uuid_str n"
  then have "dec_digits m = dec_digits n" by (simp add: uuid_str_def del: dec_digits.simps)
  then show "m = n" by (metis parse_dec_dec_digits)
qed simp

lemma template_ok_uuid [simp]: "template_ok (t\<lparr>uuid_state := n\<rparr>) = template_ok t"
  by (simp add: template_ok_def)

lemma replace_rect_with_etree_InrE:
  assumes ok: "template_ok t" and r: "replace_rect_with_etree tid tree t = Inr (u, t')"
  obtains e t1 h w d where
    "get_by_id tid t = Inr (e, t1)" "e < length (store t)" "d < length (store t)"
    "get_attr (store t) e ''height'' = Some h" "get_attr (store t) e ''width'' = Some w"
    "store t' = use_fragment e d
          (xml_set ''width'' w (xml_set ''height'' h (xml_set ''id'' (uuid_str (uuid_state t)) tree)))
          (uuid_str (uuid_state t)) (uuid_str (Suc (uuid_state t))) (store t)"
    "uuid_state t' = Suc (Suc (uuid_state t))" "defs t' = Some d" "root t' = root t"
    "doc_kind t' = doc_kind t" "tid_cache t' = tid_cache t1" "template_ok t1"
proof -
  from r obtain e t1 h w d where g: "get_by_id tid t = Inr (e, t1)"
    and h: "get_attr (store t) e ''height'' = Some h" and w: "get_attr (store t) e ''width'' = Some w"
    and gd: "get_defs (t1\<lparr>uuid_state := Suc (uuid_state t)\<rparr>) =
       Inr (Some d, t1\<lparr>uuid_state := Suc (uuid_state t), defs := Some d\<rparr>)"
    and rest: "store t' = use_fragment e d
          (xml_set ''width'' w (xml_set ''height'' h (xml_set ''id'' (uuid_str (uuid_state t)) tree)))
          (uuid_str (uuid_state t)) (uuid_str (Suc (uuid_state t))) (store t)"
    "uuid_state t' = Suc (Suc (uuid_state t))" "defs t' = Some d" "root t' = root t"
    "doc_kind t' = doc_kind t" "tid_cache t' = tid_cache t1"
    by (rule replace_rect_with_etree_Inr)
  from template_ok_get_by_id[OF ok g] have ok1: "template_ok t1" and e: "e < length (store t)"
    by auto
  from get_by_id_Inr[OF g] have "store t1 = store t"
    by (metis template.select_convs(1) template.surjective template.update_convs(4))
  with template_ok_get_defs[of "t1\<lparr>uuid_state := Suc (uuid_state t)\<rparr>", OF _ gd] ok1
  have "d < length (store t)" by simp
  with g e h w rest ok1 that show ?thesis by blast
qed

text \<open>
  C3: after a successful substitution the placeholder element is a \<open>use\<close>
  element whose attributes are its former \<open>x\<close> and \<open>y\<close>, in their order, followed
  by the reference to the generated identifier; every other attribute is gone,
  the freshly generated \<open>id\<close> included.
\<close>

theorem replace_use_element:
  assumes ok: "template_ok t" and r: "replace_rect_with_etree tid tree t = Inr (u, t')"
    and g: "get_by_id tid t = Inr (e, t1)"
  shows "tag (store t' ! e) = USE_TAG \<and>
    attrib (store t' ! e) =
      filter (\<lambda>(k, _). k \<in> set ALLOWED_ATTRS) (attrib (store t ! e)) @
      [(HREF_ATTR, ''#'' @ uuid_str (uuid_state t))]"
proof -
  from replace_rect_with_etree_InrE[OF ok r] obtain e' t1' h w d where
    g': "get_by_id tid t = Inr (e', t1')" and e: "e' < length (store t)"
    and st: "store t' = use_fragment e' d
          (xml_set ''width'' w (xml_set ''height'' h (xml_set ''id'' (uuid_str (uuid_state t)) tree)))
          (uuid_str (uuid_state t)) (uuid_str (Suc (uuid_state t))) (store t)" .
  from g g' have "e' = e" by simp
  note e = e[unfolded this] and st = st[unfolded this]
  show ?thesis using e by (simp add: st use_fragment_tag use_fragment_attrib_elem)
qed

lemma xml_attrs_xml_set [simp]: "xml_attrs (xml_set k v x) = attr_set k v (xml_attrs x)"
  by (cases x) simp

lemma use_fragment_attrib_new:
  "e < length s \<Longrightarrow> attrib (use_fragment e d x did nid s ! length s) = xml_attrs x"
  using alloc_root_fields[of None x "length s"]
  by (simp add: use_fragment_attrib_other nth_append)

text \<open>
  C4: a successful substitution copies the placeholder's \<open>height\<close> and \<open>width\<close>
  (both present, or it would have raised) onto the root of the appended
  definition; the reference element keeps neither.
\<close>

theorem replace_size_propagation:
  assumes ok: "template_ok t" and r: "replace_rect_with_etree tid tree t = Inr (u, t')"
    and g: "get_by_id tid t = Inr (e, t1)"
  shows "get_attr (store t) e ''height'' \<noteq> None \<and> get_attr (store t) e ''width'' \<noteq> None \<and>
    get_attr (store t') (length (store t)) ''height'' = get_attr (store t) e ''height'' \<and>
    get_attr (store t') (length (store t)) ''width'' = get_attr (store t) e ''width'' \<and>
    get_attr (store t') e ''height'' = None \<and> get_attr (store t') e ''width'' = None"
proof -
  from replace_rect_with_etree_InrE[OF ok r] obtain e' t1' h w d where
    g': "get_by_id tid t = Inr (e', t1')" and e: "e' < length (store t)"
    and h: "get_attr (store t) e' ''height'' = Some h" and w: "get_attr (store t) e' ''width'' = Some w"
    and st: "store t' = use_fragment e' d
          (xml_set ''width'' w (xml_set ''height'' h (xml_set ''id'' (uuid_str (uuid_state t)) tree)))
          (uuid_str (uuid_state t)) (uuid_str (Suc (uuid_state t))) (store t)" .
  from g g' have ee: "e' = e" by simp
  have "''height'' \<notin> set ALLOWED_ATTRS" "''width'' \<notin> set ALLOWED_ATTRS"
    "HREF_ATTR \<noteq> ''height''" "HREF_ATTR \<noteq> ''width''"
    by (simp_all add: ALLOWED_ATTRS_def HREF_ATTR_def)
  with e h w ee show ?thesis
    by (simp add: st get_attr_def use_fragment_attrib_new use_fragment_attrib_elem)
qed

text \<open>
  C5: a successful substitution appends the definition as last child of the
  definitions container; the definition is the parsed fragment with its \<open>id\<close>
  set to the generated identifier and the placeholder's size, and the reference
  element points at that identifier.
\<close>

theorem replace_reference_target:
  assumes ok: "template_ok t" and r: "replace_rect_with_etree tid tree t = Inr (u, t')"
    and g: "get_by_id tid t = Inr (e, t1)"
  shows "\<exists>d h w. defs t' = Some d \<and>
    get_attr (store t) e ''height'' = Some h \<and> get_attr (store t) e ''width'' = Some w \<and>
    children (store t' ! d) = children (store t ! d) @ [length (store t)] \<and>
    parent (store t' ! length (store t)) = Some d \<and>
    tree_of (store t') (length (store t)) =
      Some (xml_set ''width'' w (xml_set ''height'' h (xml_set ''id'' (uuid_str (uuid_state t)) tree))) \<and>
    get_attr (store t') (length (store t)) ''id'' = Some (uuid_str (uuid_state t)) \<and>
    get_attr (store t') e HREF_ATTR = Some (''#'' @ uuid_str (uuid_state t))"
proof -
  from replace_rect_with_etree_InrE[OF ok r] obtain e' t1' h w d where
    g': "get_by_id tid t = Inr (e', t1')" and e: "e' < length (store t)" and d: "d < length (store t)"
    and h: "get_attr (store t) e' ''height'' = Some h" and w: "get_attr (store t) e' ''width'' = Some w"
    and st: "store t' = use_fragment e' d
          (xml_set ''width'' w (xml_set ''height'' h (xml_set ''id'' (uuid_str (uuid_state t)) tree)))
          (uuid_str (uuid_state t)) (uuid_str (Suc (uuid_state t))) (store t)"
    and dt: "defs t' = Some d" .
  from g g' have ee: "e' = e" by simp
  have wf: "wf_store (store t)" using ok by (simp add: template_ok_def)
  have "HREF_ATTR \<notin> set ALLOWED_ATTRS" by (rule HREF_not_allowed)
  moreover have "length (store t) < length (store t) + length (alloc None
      (xml_set ''width'' w (xml_set ''height'' h (xml_set ''id'' (uuid_str (uuid_state t)) tree)))
      (length (store t)))"
    using alloc_nonempty by simp
  ultimately show ?thesis using e d h w ee wf dt
    by (simp add: st get_attr_def use_fragment_attrib_new use_fragment_attrib_elem use_fragment_links
        use_fragment_tree nth_append map_add_def)
qed

lemma replace_rect_with_etree_Inl:
  assumes r: "replace_rect_with_etree tid tree t = Inl (err, t')"
  shows "get_by_id tid t = Inl (err, t') \<or>
    (\<exists>e t1. get_by_id tid t = Inr (e, t1) \<and>
       (t' = t1\<lparr>uuid_state := Suc (uuid_state t1)\<rparr> \<and>
          err \<in> {KeyError ''height'', KeyError ''width''} \<or>
        get_defs (t1\<lparr>uuid_state := Suc (uuid_state t1)\<rparr>) = Inl (err, t') \<or>
        err = AttributeError ''append'' \<and>
          get_defs (t1\<lparr>uuid_state := Suc (uuid_state t1)\<rparr>) = Inr (None, t')))"
  using r
  by (auto simp: replace_rect_with_etree_def uuid4_def Let_def
      simp del: store_simps alist_simps split: sum.splits prod.splits option.splits)

lemma get_by_id_store: "get_by_id tid t = Inr (e, t1) \<Longrightarrow> store t1 = store t \<and> root t1 = root t"
  by (drule get_by_id_Inr) (metis template.select_convs(1,2) template.surjective template.update_convs(4))

lemma template_ok_replace_Inr:
  assumes ok: "template_ok t" and r: "replace_rect_with_etree tid tree t = Inr (u, t')"
  shows "template_ok t'"
proof -
  from replace_rect_with_etree_InrE[OF ok r] obtain e t1 h w d where
    g: "get_by_id tid t = Inr (e, t1)" and e: "e < length (store t)" and d: "d < length (store t)"
    and st: "store t' = use_fragment e d
          (xml_set ''width'' w (xml_set ''height'' h (xml_set ''id'' (uuid_str (uuid_state t)) tree)))
          (uuid_str (uuid_state t)) (uuid_str (Suc (uuid_state t))) (store t)"
    and dt: "defs t' = Some d" and rt: "root t' = root t" and ct: "tid_cache t' = tid_cache t1"
    and ok1: "template_ok t1" .
  from ok have wf: "wf_store (store t)" and r0: "root t < length (store t)"
    and pr: "parent (store t ! root t) = None" by (simp_all add: template_ok_def)
  from ok1 get_by_id_store[OF g] have cache: "list_all (\<lambda>(_, a). a < length (store t)) (tid_cache t1)"
    by (simp add: template_ok_def)
  have "parent (store t' ! root t) = None"
    using r0 d pr by (simp add: st use_fragment_links nth_append)
  with wf_use_fragment[OF wf e d] r0 d cache show ?thesis
    by (simp add: template_ok_def st dt rt ct list_all_iff) fastforce
qed

text \<open>
  C6: a successful substitution rewrites the placeholder in place: it keeps its
  parent and its children, and every other element of the store but the
  definitions container is unchanged.
\<close>

theorem replace_in_place:
  assumes ok: "template_ok t" and r: "replace_rect_with_etree tid tree t = Inr (u, t')"
    and g: "get_by_id tid t = Inr (e, t1)"
  shows "parent (store t' ! e) = parent (store t ! e) \<and>
    (defs t' \<noteq> Some e \<longrightarrow> children (store t' ! e) = children (store t ! e)) \<and>
    (\<forall>b < length (store t). b \<noteq> e \<and> defs t' \<noteq> Some b \<longrightarrow> store t' ! b = store t ! b)"
proof -
  from replace_rect_with_etree_InrE[OF ok r] obtain e' t1' h w d where
    g': "get_by_id tid t = Inr (e', t1')" and e: "e' < length (store t)" and d: "d < length (store t)"
    and st: "store t' = use_fragment e' d
          (xml_set ''width'' w (xml_set ''height'' h (xml_set ''id'' (uuid_str (uuid_state t)) tree)))
          (uuid_str (uuid_state t)) (uuid_str (Suc (uuid_state t))) (store t)"
    and dt: "defs t' = Some d" .
  from g g' have ee: "e' = e" by simp
  with e d dt show ?thesis
    by (simp add: st use_fragment_links use_fragment_other nth_append)
qed

text \<open>
  C7: a substitution that raises leaves the document's elements as they were,
  except on the one path where the code has already inserted a new definitions
  container (an element tree without one), which raises \<open>AttributeError\<close> on
  \<open>None.append\<close>.
\<close>

theorem replace_error_unchanged:
  assumes r: "replace_rect_with_etree tid tree t = Inl (err, t')"
    and ne: "err \<noteq> AttributeError ''append''"
  shows "store t' = store t \<and> root t' = root t"
  using replace_rect_with_etree_Inl[OF r]
proof (elim disjE exE conjE)
  assume "get_by_id tid t = Inl (err, t')"
  then have "t' = t" by (rule get_by_id_Inl)
  then show ?thesis by simp
next
  fix e t1 assume "get_by_id tid t = Inr (e, t1)" and "t' = t1\<lparr>uuid_state := Suc (uuid_state t1)\<rparr>"
  with get_by_id_store show ?thesis by simp
next
  fix e t1 assume g: "get_by_id tid t = Inr (e, t1)"
    and gd: "get_defs (t1\<lparr>uuid_state := Suc (uuid_state t1)\<rparr>) = Inl (err, t')"
  from get_defs_Inl[OF gd] have "t' = t1\<lparr>uuid_state := Suc (uuid_state t1)\<rparr>" by simp
  with get_by_id_store[OF g] show ?thesis by simp
next
  assume "err = AttributeError ''append''"
  with ne show ?thesis by simp
qed

text \<open>
  C8: the identifier cache is not updated when the placeholder is rewritten, so
  substituting the same identifier a second time finds the former placeholder,
  now a \<open>use\<close> element without size, and raises \<open>KeyError('height')\<close>.
\<close>

theorem replace_same_id_twice:
  assumes ok: "template_ok t" and r: "replace_rect_with_etree tid tree1 t = Inr (u, t1)"
  shows "replace_rect_with_etree tid tree2 t1 = Inl (KeyError ''height'', t1\<lparr>uuid_state := Suc (uuid_state t1)\<rparr>)"
proof -
  from replace_rect_with_etree_InrE[OF ok r] obtain e t1' h w d where
    g: "get_by_id tid t = Inr (e, t1')" and e: "e < length (store t)" and d: "d < length (store t)"
    and st: "store t1 = use_fragment e d
          (xml_set ''width'' w (xml_set ''height'' h (xml_set ''id'' (uuid_str (uuid_state t)) tree1)))
          (uuid_str (uuid_state t)) (uuid_str (Suc (uuid_state t))) (store t)"
    and ct: "tid_cache t1 = tid_cache t1'" .
  from get_by_id_Inr[OF g] ct have "map_of (tid_cache t1) tid = Some e" by simp
  then have g2: "get_by_id tid t1 = Inr (e, t1)" by (simp add: get_by_id_def)
  have "''height'' \<notin> set ALLOWED_ATTRS" "HREF_ATTR \<noteq> ''height''"
    by (simp_all add: ALLOWED_ATTRS_def HREF_ATTR_def)
  with e have "get_attr (store t1) e ''height'' = None"
    by (simp add: st get_attr_def use_fragment_attrib_elem)
  with g2 show ?thesis by (simp add: replace_rect_with_etree_def uuid4_def Let_def)
qed

lemma replace_new_id:
  assumes ok: "template_ok t" and r: "replace_rect_with_etree tid tree t = Inr (u, t')"
  shows "get_attr (store t') (length (store t)) ''id'' = Some (uuid_str (uuid_state t))"
proof -
  from replace_rect_with_etree_InrE[OF ok r] obtain e t1 h w d where
    e: "e < length (store t)"
    and st: "store t' = use_fragment e d
          (xml_set ''width'' w (xml_set ''height'' h (xml_set ''id'' (uuid_str (uuid_state t)) tree)))
          (uuid_str (uuid_state t)) (uuid_str (Suc (uuid_state t))) (store t)" by metis
  from e show ?thesis by (simp add: st get_attr_def use_fragment_attrib_new)
qed

text \<open>
  C9: two successive substitutions give their definitions different
  identifiers, each the one generated for it, and consume four identifiers.
\<close>

theorem replace_fresh_ids:
  assumes ok: "template_ok t" and r1: "replace_rect_with_etree tid1 x1 t = Inr (u1, t1)"
    and r2: "replace_rect_with_etree tid2 x2 t1 = Inr (u2, t2)"
  shows "get_attr (store t1) (length (store t)) ''id'' = Some (uuid_str (uuid_state t)) \<and>
    get_attr (store t2) (length (store t1)) ''id'' = Some (uuid_str (uuid_state t1)) \<and>
    uuid_str (uuid_state t) \<noteq> uuid_str (uuid_state t1) \<and>
    uuid_state t2 = uuid_state t + 4"
proof -
  from replace_rect_with_etree_InrE[OF ok r1]
  have u1: "uuid_state t1 = Suc (Suc (uuid_state t))" by metis
  have ok1: "template_ok t1" by (rule template_ok_replace_Inr[OF ok r1])
  from replace_rect_with_etree_InrE[OF ok1 r2]
  have u2: "uuid_state t2 = Suc (Suc (uuid_state t1))" by metis
  note i1 = replace_new_id[OF ok r1] and i2 = replace_new_id[OF ok1 r2]
  from u1 have "uuid_str (uuid_state t) \<noteq> uuid_str (uuid_state t1)" by (simp add: uuid_str_inj)
  with i1 i2 u1 u2 show ?thesis by simp
qed

section \<open>Lemmas and properties: missing definitions container\<close>

lemma replace_no_defs:
  assumes d: "defs t = None" and q: "defs_query (store t) (root t) = []"
    and g: "get_by_id tid t = Inr (e, t1)"
    and h: "get_attr (store t) e ''height'' \<noteq> None" and w: "get_attr (store t) e ''width'' \<noteq> None"
  shows "\<exists>t'. replace_rect_with_etree tid tree t =
    Inl (if doc_kind t = FromString then AttributeError ''getroot'' else AttributeError ''append'', t')"
proof -
  from get_by_id_Inr[OF g] have t1: "t1 = t \<or> t1 = t\<lparr>tid_cache := AList.update tid e (tid_cache t)\<rparr>"
    by auto
  then have "defs t1 = None \<and> store t1 = store t \<and> root t1 = root t \<and> doc_kind t1 = doc_kind t"
    using d by auto
  with q g h w show ?thesis
    by (auto simp: replace_rect_with_etree_def uuid4_def get_defs_def Let_def new_tree_def
        split: option.splits doc_kind.splits)
qed

lemma get_defs_file_step:
  assumes ok: "template_ok t" and k: "doc_kind t = FromFile" and d: "defs t = None"
    and q: "defs_query (store t) (root t) = []"
  shows "\<exists>t'. get_defs t = Inr (None, t') \<and> template_ok t' \<and> defs t' = None \<and>
    doc_kind t' = FromFile \<and> root t' = root t \<and> length (store t') = Suc (length (store t)) \<and>
    tag (store t' ! root t) = tag (store t ! root t) \<and> tag (store t' ! length (store t)) = DEFS_TAG \<and>
    children (store t' ! root t) = length (store t) # children (store t ! root t)"
proof -
  let ?s = "store t" and ?n = "\<lparr>tag = DEFS_TAG, attrib = [], children = [], parent = None\<rparr>"
  let ?t' = "t\<lparr>store := insert_child (root t) 0 (length ?s) (?s @ [?n])\<rparr>"
  have g: "get_defs t = Inr (None, ?t')" using k d q by (simp add: get_defs_def new_tree_def)
  from ok have r: "root t < length ?s" by (simp add: template_ok_def)
  have "children (store ?t' ! root t) = length ?s # children (?s ! root t)"
    using r by (simp add: insert_child_links nth_append)
  moreover have "tag (store ?t' ! length ?s) = DEFS_TAG" by simp
  moreover have "tag (store ?t' ! root t) = tag (?s ! root t)" using r by (simp add: nth_append)
  moreover from template_ok_get_defs[OF ok g] have "template_ok ?t'" by simp
  ultimately show ?thesis using g k d by (simp add: insert_child_def Let_def)
qed

text \<open>
  C14: on a template loaded from a file, without a \<open>defs\<close> element and whose
  root is not \<open>svg:svg\<close>, \<open>get_defs\<close> returns \<open>None\<close> (the value of
  \<open>insert\<close>) and caches nothing, so each call inserts one more \<open>defs\<close> element
  as first child of the root: it is not idempotent.
\<close>

theorem get_defs_file_repeats:
  assumes ok: "template_ok t" and k: "doc_kind t = FromFile" and d: "defs t = None"
    and q: "defs_query (store t) (root t) = []" and ns: "tag (store t ! root t) \<noteq> SVG_TAG"
  shows "\<exists>t1 t2. get_defs t = Inr (None, t1) \<and> get_defs t1 = Inr (None, t2) \<and>
    children (store t2 ! root t) = [Suc (length (store t)), length (store t)] @ children (store t ! root t) \<and>
    tag (store t2 ! length (store t)) = DEFS_TAG \<and> tag (store t2 ! Suc (length (store t))) = DEFS_TAG"
proof -
  from get_defs_file_step[OF ok k d q] obtain t1 where g1: "get_defs t = Inr (None, t1)"
    and ok1: "template_ok t1" and k1: "doc_kind t1 = FromFile" and d1: "defs t1 = None"
    and r1: "root t1 = root t" and l1: "length (store t1) = Suc (length (store t))"
    and tg1: "tag (store t1 ! root t) = tag (store t ! root t)"
    and n1: "tag (store t1 ! length (store t)) = DEFS_TAG"
    and c1: "children (store t1 ! root t) = length (store t) # children (store t ! root t)" by blast
  have q1: "defs_query (store t1) (root t1) = []" using ns tg1 r1 by (simp add: defs_query_def)
  from get_defs_file_step[OF ok1 k1 d1 q1] obtain t2 where g2: "get_defs t1 = Inr (None, t2)"
    and l2: "length (store t2) = Suc (length (store t1))"
    and n2: "tag (store t2 ! length (store t1)) = DEFS_TAG"
    and c2: "children (store t2 ! root t1) = length (store t1) # children (store t1 ! root t1)"
    by blast
  from get_defs_None[OF g2] l1 have "tag (store t2 ! length (store t)) = tag (store t1 ! length (store t))"
    by (simp add: nth_append)
  with g1 g2 n1 n2 c1 c2 r1 l1 show ?thesis by auto
qed

end
