(* ===== verification/Layout.thy ===== *)
theory Layout
  imports Template
begin

text \<open>
  \<open>Template.expunge_layout_elements\<close> of \<open>src/svgcomposer/svglue.py\<close>: every
  element labelled \<open>inkscape:label="layout"\<close> is removed from its parent, the
  parents being looked up before the first removal. Its abstract specification
  is \<open>prune\<close> on element trees, which drops every labelled child together with
  its subtree; the lemmas show that the store-level loop implements it and when it
  raises.
\<close>

section \<open>Removing layout elements\<close>

definition layout_query :: "store \<Rightarrow> addr \<Rightarrow> addr list" where
  "layout_query s r = filter (\<lambda>a. get_attr s a LABEL_ATTR = Some ''layout'') (iter s r)"

text \<open>The loop \<open>parent_map[elem].remove(elem)\<close> over the layout elements.\<close>

fun remove_each ::
  "(addr \<rightharpoonup> addr option) \<Rightarrow> addr list \<Rightarrow> store \<Rightarrow> (py_error \<times> store) + store" where
  "remove_each pm [] s = Inr s"
| "remove_each pm (e # es) s =
     (case pm e of
        None \<Rightarrow> Inl (KeyError ''element'', s)
      | Some None \<Rightarrow> Inl (AttributeError ''remove'', s)
      | Some (Some p) \<Rightarrow>
          (case remove_child p e s of
             Inl err \<Rightarrow> Inl (err, s)
           | Inr s' \<Rightarrow> remove_each pm es s'))"

definition expunge_layout_elements :: "template \<Rightarrow> (unit, template) exc" where
  "expunge_layout_elements t =
     (let les = layout_query (store t) (root t);
          pm = map_of (map (\<lambda>e. (e, parent (store t ! e))) les)
      in case remove_each pm les (store t) of
           Inl (err, s) \<Rightarrow> Inl (err, t\<lparr>store := s\<rparr>)
         | Inr s \<Rightarrow> Inr ((), t\<lparr>store := s\<rparr>))"

section \<open>Specification: pruning an element tree\<close>

text \<open>An element tree is labelled when it carries \<open>inkscape:label="layout"\<close>.\<close>

fun labelled :: "xml \<Rightarrow> bool" where
  "labelled (Element _ as _) = (map_of as LABEL_ATTR = Some ''layout'')"

text \<open>\<open>prune\<close> drops the labelled children of every element, with their subtrees.\<close>

fun prune :: "xml \<Rightarrow> xml" where
  "prune (Element t as cs) = Element t as (map prune (filter (\<lambda>c. \<not> labelled c) cs))"

text \<open>The elements of a tree in document order.\<close>

fun subtrees :: "xml \<Rightarrow> xml list" where
  "subtrees (Element t as cs) = Element t as cs # concat (map subtrees cs)"

section \<open>Lemmas: the removal loop\<close>

lemma remove_each_Inr:
  "wf_store s \<Longrightarrow> distinct es \<Longrightarrow>
   \<forall>e \<in> set es. e < length s \<and> (\<exists>p. pm e = Some (Some p) \<and> parent (s ! e) = Some p) \<Longrightarrow>
   \<exists>s'. remove_each pm es s = Inr s' \<and> wf_store s' \<and> length s' = length s \<and>
     (\<forall>b. tag (s' ! b) = tag (s ! b) \<and> attrib (s' ! b) = attrib (s ! b)) \<and>
     (\<forall>b < length s. children (s' ! b) = filter (\<lambda>c. c \<notin> set es) (children (s ! b))) \<and>
     (\<forall>x. x \<notin> set es \<longrightarrow> parent (s' ! x) = parent (s ! x))"
proof (induction es arbitrary: s)
  case Nil
  then show ?case by simp
next
  case (Cons e es)
  from Cons.prems(3) obtain p where e: "e < length s" and pm: "pm e = Some (Some p)"
    and p: "parent (s ! e) = Some p" by auto
  from remove_child_Inr[OF Cons.prems(1) e p] obtain s1 where r: "remove_child p e s = Inr s1"
    and wf1: "wf_store s1" and l1: "length s1 = length s"
    and f1: "\<forall>b. tag (s1 ! b) = tag (s ! b) \<and> attrib (s1 ! b) = attrib (s ! b)"
    and c1: "\<forall>b < length s. children (s1 ! b) = filter (\<lambda>c. c \<noteq> e) (children (s ! b))"
    and p1: "\<forall>x. x \<noteq> e \<longrightarrow> parent (s1 ! x) = parent (s ! x)" by blast
  from Cons.prems(2,3) p1 l1
  have "\<forall>e' \<in> set es. e' < length s1 \<and> (\<exists>p. pm e' = Some (Some p) \<and> parent (s1 ! e') = Some p)"
    by auto
  from Cons.IH[OF wf1 _ this] Cons.prems(2) obtain s' where r': "remove_each pm es s1 = Inr s'"
    and wf': "wf_store s'" and l': "length s' = length s1"
    and f': "\<forall>b. tag (s' ! b) = tag (s1 ! b) \<and> attrib (s' ! b) = attrib (s1 ! b)"
    and c': "\<forall>b < length s1. children (s' ! b) = filter (\<lambda>c. c \<notin> set es) (children (s1 ! b))"
    and p': "\<forall>x. x \<notin> set es \<longrightarrow> parent (s' ! x) = parent (s1 ! x)" by auto
  have "remove_each pm (e # es) s = Inr s'" using pm r r' by simp
  moreover have "\<forall>b < length s. children (s' ! b) = filter (\<lambda>c. c \<notin> set (e # es)) (children (s ! b))"
    using c' c1 l1 by (simp add: conj_commute)
  moreover have "\<forall>x. x \<notin> set (e # es) \<longrightarrow> parent (s' ! x) = parent (s ! x)" using p' p1 by simp
  ultimately show ?case using wf' l' l1 f' f1 by simp
qed

lemma layout_query_facts:
  assumes ok: "template_ok t" and e: "e \<in> set (layout_query (store t) (root t))"
  shows "e \<in> set (iter (store t) (root t)) \<and> e < length (store t) \<and>
    get_attr (store t) e LABEL_ATTR = Some ''layout''"
proof -
  from ok have wf: "wf_store (store t)" and r: "root t < length (store t)" by (simp_all add: template_ok_def)
  from e have i: "e \<in> set (iter (store t) (root t))" and l: "get_attr (store t) e LABEL_ATTR = Some ''layout''"
    by (simp_all add: layout_query_def)
  from desc_range[OF wf r i[unfolded iter_def]] i l show ?thesis by simp
qed

lemma labelled_attrs: "labelled y \<longleftrightarrow> map_of (xml_attrs y) LABEL_ATTR = Some ''layout''"
  by (cases y) simp

lemma to_xml_prune:
  assumes f: "\<forall>b. tag (s' ! b) = tag (s ! b) \<and> attrib (s' ! b) = attrib (s ! b)"
  shows "\<forall>b \<in> set (desc n s a). children (s' ! b) =
      filter (\<lambda>c. get_attr s c LABEL_ATTR \<noteq> Some ''layout'') (children (s ! b)) \<Longrightarrow>
    to_xml n s a = Some x \<Longrightarrow> to_xml n s' a = Some (prune x)"
proof (induction n arbitrary: a x)
  case 0
  then show ?case by simp
next
  case (Suc n)
  let ?P = "\<lambda>c. get_attr s c LABEL_ATTR \<noteq> Some ''layout''"
  from Suc.prems(2) obtain xs where x: "x = Element (tag (s ! a)) (attrib (s ! a)) xs"
    and xs: "list_all2 (\<lambda>c y. to_xml n s c = Some y) (children (s ! a)) xs"
    by (auto simp del: those_map_Some_iff simp: those_map_Some_iff[symmetric])
  have "list_all2 (\<lambda>c y. to_xml n s c = Some y) (filter ?P (children (s ! a))) (filter (\<lambda>y. \<not> labelled y) xs)"
    using xs by (rule list_all2_filter) (auto simp: labelled_attrs get_attr_def dest: to_xml_attrs)
  then have "list_all2 (\<lambda>c y. to_xml n s' c = Some (prune y)) (filter ?P (children (s ! a)))
      (filter (\<lambda>y. \<not> labelled y) xs)"
  proof (rule list.rel_mono_strong)
    fix c y assume c: "c \<in> set (filter ?P (children (s ! a)))" and y: "to_xml n s c = Some y"
    have "\<forall>b \<in> set (desc n s c). children (s' ! b) = filter ?P (children (s ! b))"
      using Suc.prems(1) c by auto
    from Suc.IH[OF this y] show "to_xml n s' c = Some (prune y)" .
  qed
  then have "those (map (to_xml n s') (filter ?P (children (s ! a)))) =
      Some (map prune (filter (\<lambda>y. \<not> labelled y) xs))"
    by (simp add: list_all2_map2)
  moreover have "children (s' ! a) = filter ?P (children (s ! a))" using Suc.prems(1) by simp
  ultimately show ?case using f x by simp
qed

lemma expunge_Inr:
  assumes ok: "template_ok t" and nl: "get_attr (store t) (root t) LABEL_ATTR \<noteq> Some ''layout''"
  shows "\<exists>s'. expunge_layout_elements t = Inr ((), t\<lparr>store := s'\<rparr>) \<and>
    wf_store s' \<and> length s' = length (store t) \<and> parent (s' ! root t) = None \<and>
    (\<forall>b. tag (s' ! b) = tag (store t ! b) \<and> attrib (s' ! b) = attrib (store t ! b)) \<and>
    (\<forall>b \<in> set (desc (length (store t)) (store t) (root t)). children (s' ! b) =
      filter (\<lambda>c. get_attr (store t) c LABEL_ATTR \<noteq> Some ''layout'') (children (store t ! b)))"
proof -
  let ?s = "store t" and ?r = "root t"
  let ?les = "layout_query ?s ?r"
  let ?pm = "map_of (map (\<lambda>e. (e, parent (?s ! e))) ?les)"
  from ok have wf: "wf_store ?s" and r: "?r < length ?s" and pr: "parent (?s ! ?r) = None"
    by (simp_all add: template_ok_def)
  have dl: "distinct ?les" using distinct_iter[OF wf r] by (simp add: layout_query_def)
  have "\<forall>e \<in> set ?les. e < length ?s \<and> (\<exists>p. ?pm e = Some (Some p) \<and> parent (?s ! e) = Some p)"
  proof
    fix e assume e: "e \<in> set ?les"
    from layout_query_facts[OF ok e] nl have "e \<in> set (iter ?s ?r)" "e < length ?s" "e \<noteq> ?r" by auto
    with iter_parent[OF wf r] obtain p where "parent (?s ! e) = Some p" by blast
    with e \<open>e < length ?s\<close> show "e < length ?s \<and> (\<exists>p. ?pm e = Some (Some p) \<and> parent (?s ! e) = Some p)"
      by (simp add: map_of_map_restrict)
  qed
  from remove_each_Inr[OF wf dl this] obtain s' where rm: "remove_each ?pm ?les ?s = Inr s'"
    and wf': "wf_store s'" and l': "length s' = length ?s"
    and f': "\<forall>b. tag (s' ! b) = tag (?s ! b) \<and> attrib (s' ! b) = attrib (?s ! b)"
    and c': "\<forall>b < length ?s. children (s' ! b) = filter (\<lambda>c. c \<notin> set ?les) (children (?s ! b))"
    and p': "\<forall>x. x \<notin> set ?les \<longrightarrow> parent (s' ! x) = parent (?s ! x)" by blast
  have ex: "expunge_layout_elements t = Inr ((), t\<lparr>store := s'\<rparr>)"
    using rm by (simp add: expunge_layout_elements_def Let_def)
  have rl: "?r \<notin> set ?les" using nl by (simp add: layout_query_def)
  have ch: "\<forall>b \<in> set (desc (length ?s) ?s ?r). children (s' ! b) =
      filter (\<lambda>c. get_attr ?s c LABEL_ATTR \<noteq> Some ''layout'') (children (?s ! b))"
  proof
    fix b assume b: "b \<in> set (desc (length ?s) ?s ?r)"
    then have bl: "b < length ?s" using desc_range[OF wf r] by blast
    have "c \<in> set ?les \<longleftrightarrow> get_attr ?s c LABEL_ATTR = Some ''layout''" if "c \<in> set (children (?s ! b))" for c
      using iter_child[OF wf r b[folded iter_def] that] by (simp add: layout_query_def)
    with c' bl show "children (s' ! b) =
        filter (\<lambda>c. get_attr ?s c LABEL_ATTR \<noteq> Some ''layout'') (children (?s ! b))"
      by (auto intro!: filter_cong)
  qed
  from ex wf' l' p'[rule_format, OF rl] pr f' ch show ?thesis by auto
qed

lemma iter_root: "a < length s \<Longrightarrow> \<exists>rest. iter s a = a # rest"
  by (cases "length s") (auto simp: iter_def)

lemma expunge_root_Inl:
  assumes ok: "template_ok t" and l: "get_attr (store t) (root t) LABEL_ATTR = Some ''layout''"
  shows "expunge_layout_elements t = Inl (AttributeError ''remove'', t)"
proof -
  from ok have r: "root t < length (store t)" and pr: "parent (store t ! root t) = None"
    by (simp_all add: template_ok_def)
  from iter_root[OF r] obtain rest where "iter (store t) (root t) = root t # rest" by blast
  with l pr show ?thesis by (simp add: expunge_layout_elements_def layout_query_def Let_def)
qed

lemma prune_no_layout: "\<not> labelled x \<Longrightarrow> z \<in> set (subtrees (prune x)) \<Longrightarrow> \<not> labelled z"
proof (induction x arbitrary: z rule: prune.induct)
  case (1 t as cs)
  then show ?case by auto
qed

lemma expunge_tostring_prune:
  assumes ok: "template_ok t" and nl: "get_attr (store t) (root t) LABEL_ATTR \<noteq> Some ''layout''"
  shows "\<exists>t' x. expunge_layout_elements t = Inr ((), t') \<and> template_ok t' \<and>
    tostring t = Some x \<and> tostring t' = Some (prune x)"
proof -
  from expunge_Inr[OF ok nl] obtain s' where ex: "expunge_layout_elements t = Inr ((), t\<lparr>store := s'\<rparr>)"
    and wf': "wf_store s'" and l': "length s' = length (store t)" and pr: "parent (s' ! root t) = None"
    and f': "\<forall>b. tag (s' ! b) = tag (store t ! b) \<and> attrib (s' ! b) = attrib (store t ! b)"
    and ch: "\<forall>b \<in> set (desc (length (store t)) (store t) (root t)). children (s' ! b) =
      filter (\<lambda>c. get_attr (store t) c LABEL_ATTR \<noteq> Some ''layout'') (children (store t ! b))" by blast
  from ok have wf: "wf_store (store t)" and r: "root t < length (store t)" by (simp_all add: template_ok_def)
  from tree_of_total[OF wf r] obtain x where x: "to_xml (length (store t)) (store t) (root t) = Some x"
    by (auto simp: tree_of_def)
  from to_xml_prune[OF f' ch x] l' have "tostring (t\<lparr>store := s'\<rparr>) = Some (prune x)"
    by (simp add: tostring_def tree_of_def)
  moreover have "template_ok (t\<lparr>store := s'\<rparr>)" using ok wf' l' pr by (simp add: template_ok_def)
  ultimately show ?thesis using ex x by (auto simp: tostring_def tree_of_def)
qed

section \<open>Properties of the pruner\<close>

text \<open>
  C10: on a well-formed template whose root is not labelled, the pruner returns,
  leaves a well-formed template, and the document it serialises is the original
  tree pruned: the store-level removal loop implements \<open>prune\<close>.
\<close>

theorem expunge_refines_prune:
  assumes ok: "template_ok t" and nl: "get_attr (store t) (root t) LABEL_ATTR \<noteq> Some ''layout''"
  shows "\<exists>t'. expunge_layout_elements t = Inr ((), t') \<and> template_ok t' \<and>
    tostring t' = map_option prune (tostring t)"
  using expunge_tostring_prune[OF ok nl] by auto

text \<open>
  C11: the pruner raises exactly when the root itself is labelled: the code looks
  up the root's parent, \<open>None\<close>, and calls \<open>None.remove\<close>, raising
  \<open>AttributeError\<close> before any removal, so the template is unchanged.
\<close>

theorem expunge_error:
  assumes ok: "template_ok t"
  shows "(case expunge_layout_elements t of
      Inl (err, t') \<Rightarrow> err = AttributeError ''remove'' \<and> t' = t \<and>
        get_attr (store t) (root t) LABEL_ATTR = Some ''layout''
    | Inr _ \<Rightarrow> get_attr (store t) (root t) LABEL_ATTR \<noteq> Some ''layout'')"
proof (cases "get_attr (store t) (root t) LABEL_ATTR = Some ''layout''")
  case True
  with expunge_root_Inl[OF ok True] show ?thesis by simp
next
  case False
  with expunge_Inr[OF ok False] show ?thesis by auto
qed

text \<open>
  C12: after a successful pruning no element of the serialised document, the
  root included, carries the layout label.
\<close>

theorem expunge_no_layout:
  assumes ok: "template_ok t" and r: "expunge_layout_elements t = Inr ((), t')"
  shows "\<exists>y. tostring t' = Some y \<and> (\<forall>z \<in> set (subtrees y). \<not> labelled z)"
proof -
  have nl: "get_attr (store t) (root t) LABEL_ATTR \<noteq> Some ''layout''"
    using expunge_root_Inl[OF ok] r by auto
  from expunge_Inr[OF ok nl] r obtain s' where t': "t' = t\<lparr>store := s'\<rparr>"
    and l': "length s' = length (store t)"
    and f': "\<forall>b. tag (s' ! b) = tag (store t ! b) \<and> attrib (s' ! b) = attrib (store t ! b)"
    and ch: "\<forall>b \<in> set (desc (length (store t)) (store t) (root t)). children (s' ! b) =
      filter (\<lambda>c. get_attr (store t) c LABEL_ATTR \<noteq> Some ''layout'') (children (store t ! b))" by auto
  from ok have wf: "wf_store (store t)" and rt: "root t < length (store t)" by (simp_all add: template_ok_def)
  from tree_of_total[OF wf rt] obtain x where x: "to_xml (length (store t)) (store t) (root t) = Some x"
    by (auto simp: tree_of_def)
  have "\<not> labelled x" using x nl by (auto simp: labelled_attrs get_attr_def dest: to_xml_attrs)
  moreover from to_xml_prune[OF f' ch x] l' t' have "tostring t' = Some (prune x)"
    by (simp add: tostring_def tree_of_def)
  ultimately show ?thesis using prune_no_layout by blast
qed

end
