(* ===== verification/Render.thy ===== *)
theory Render
  imports Layout
begin

text \<open>
  Loading a template (\<open>Template.load\<close>) and the batch entry point, the class
  method \<open>Template.render_svg_string\<close> of \<open>src/svgcomposer/svglue.py\<close>, which
  loads the template, substitutes each placeholder in turn (in the order of the
  replacement dictionary, a list here), optionally removes the layout elements
  and serialises the result. The XML parser is a parameter
  \<open>fromstring\<close>: a function from text to a tree or \<open>XMLSyntaxError\<close>.
\<close>

section \<open>Loading and rendering\<close>

text \<open>
  \<open>Template.load(src, file)\<close>: a non-empty \<open>src\<close> is parsed with
  \<open>etree.fromstring\<close>; otherwise \<open>etree.parse(file)\<close> reads the file (its contents
  are the argument here), and \<open>etree.parse(None)\<close> raises \<open>TypeError\<close>. The
  last argument is the state of the identifier generator.
\<close>

definition load ::
  "(string \<Rightarrow> py_error + xml) \<Rightarrow> string option \<Rightarrow> string option \<Rightarrow> nat \<Rightarrow> py_error + template" where
  "load fromstring src file u =
     (if src \<noteq> None \<and> src \<noteq> Some [] then
        (case fromstring (the src) of
           Inl err \<Rightarrow> Inl err
         | Inr x \<Rightarrow> (let (r, s) = new_tree x [] in Inr (init_template s r FromString u)))
      else
        (case file of
           None \<Rightarrow> Inl (TypeError ''parse'')
         | Some contents \<Rightarrow>
             (case fromstring contents of
                Inl err \<Rightarrow> Inl err
              | Inr x \<Rightarrow> (let (r, s) = new_tree x [] in Inr (init_template s r FromFile u)))))"

fun replace_all ::
  "(string \<Rightarrow> py_error + xml) \<Rightarrow> (string \<times> string) list \<Rightarrow> template \<Rightarrow> (unit, template) exc" where
  "replace_all fromstring [] t = Inr ((), t)"
| "replace_all fromstring ((tid, svg) # rs) t =
     (case replace_rect_with_svg_string fromstring tid svg t of
        Inl err \<Rightarrow> Inl err
      | Inr (_, t') \<Rightarrow> replace_all fromstring rs t')"

definition render_svg_string ::
  "(string \<Rightarrow> py_error + xml) \<Rightarrow> string option \<Rightarrow> string option \<Rightarrow> (string \<times> string) list \<Rightarrow>
     bool \<Rightarrow> nat \<Rightarrow> py_error + xml option" where
  "render_svg_string fromstring src file replacements clean_layout_elements u =
     (case load fromstring src file u of
        Inl err \<Rightarrow> Inl err
      | Inr tpl \<Rightarrow>
          (case replace_all fromstring replacements tpl of
             Inl (err, _) \<Rightarrow> Inl err
           | Inr (_, tpl1) \<Rightarrow>
               (if clean_layout_elements then
                  (case expunge_layout_elements tpl1 of
                     Inl (err, _) \<Rightarrow> Inl err
                   | Inr (_, tpl2) \<Rightarrow> Inr (tostring tpl2))
                else Inr (tostring tpl1))))"

section \<open>Lemmas\<close>

lemma load_Inr:
  "load fromstring src file u = Inr t \<Longrightarrow>
     \<exists>txt x k. fromstring txt = Inr x \<and> t = init_template (snd (new_tree x [])) 0 k u \<and>
       (src \<noteq> None \<and> src \<noteq> Some [] \<longrightarrow> txt = the src \<and> k = FromString) \<and>
       (\<not> (src \<noteq> None \<and> src \<noteq> Some []) \<longrightarrow> file = Some txt \<and> k = FromFile)"
  by (auto simp: load_def new_tree_def split: if_splits sum.splits option.splits)

section \<open>Properties of rendering\<close>

text \<open>
  C13: without replacements and without pruning, rendering a non-empty source
  that parses to a tree \<open>x\<close> returns \<open>x\<close>: loading and serialising is a
  round trip.
\<close>

theorem render_roundtrip:
  assumes p: "fromstring txt = Inr x" and ne: "txt \<noteq> []"
  shows "render_svg_string fromstring (Some txt) file [] False u = Inr (Some x)"
  using p ne tree_of_new_tree[of x]
  by (simp add: render_svg_string_def load_def tostring_def init_template_def new_tree_def)

text \<open>
  C15: when the loaded document has no \<open>defs\<close> element, the first replacement
  whose placeholder exists with a size raises: \<open>AttributeError\<close> from
  \<open>getroot\<close> on a document parsed from a string, \<open>AttributeError\<close> from
  \<open>None.append\<close> on one parsed from a file. The rendering fails either way.
\<close>

theorem render_missing_defs:
  assumes l: "load fromstring src file u = Inr t" and q: "defs_query (store t) (root t) = []"
    and g: "get_by_id tid t = Inr (e, t1)"
    and h: "get_attr (store t) e ''height'' \<noteq> None" and w: "get_attr (store t) e ''width'' \<noteq> None"
    and p: "fromstring svg = Inr y"
  shows "render_svg_string fromstring src file ((tid, svg) # rs) clean u =
    Inl (if doc_kind t = FromString then AttributeError ''getroot'' else AttributeError ''append'')"
proof -
  from load_Inr[OF l] have "defs t = None" by (auto simp: init_template_def)
  from replace_no_defs[OF this q g h w, of y] obtain t' where
    "replace_rect_with_etree tid y t = Inl (if doc_kind t = FromString then AttributeError ''getroot''
       else AttributeError ''append'', t')" by blast
  with l p show ?thesis by (simp add: render_svg_string_def replace_rect_with_svg_string_def)
qed


text \<open>
  C22: without a non-empty source and without a file, \<open>render_svg_string\<close> fails in
  \<open>load\<close> with the \<open>TypeError\<close> of \<open>etree.parse(None)\<close>, before any replacement.
\<close>

theorem render_missing_input:
  "src \<in> {None, Some []} \<Longrightarrow>
     render_svg_string fromstring src None replacements clean u = Inl (TypeError ''parse'')"
  by (auto simp: render_svg_string_def load_def)


lemma replace_all_append:
  "replace_all fromstring (xs @ ys) t =
     (case replace_all fromstring xs t of
        Inl err \<Rightarrow> Inl err
      | Inr (_, t') \<Rightarrow> replace_all fromstring ys t')"
  by (induction xs arbitrary: t) (auto split: sum.splits prod.splits)

lemma template_ok_replace_svg_string:
  "template_ok t \<Longrightarrow> replace_rect_with_svg_string fromstring tid svg t = Inr (u, t') \<Longrightarrow> template_ok t'"
  by (auto simp: replace_rect_with_svg_string_def split: sum.splits intro: template_ok_replace_Inr)

lemma template_ok_replace_all:
  "template_ok t \<Longrightarrow> replace_all fromstring rs t = Inr (u, t') \<Longrightarrow> template_ok t'"
proof (induction rs arbitrary: t)
  case Nil
  then show ?case by simp
next
  case (Cons r rs)
  obtain tid svg where r: "r = (tid, svg)" by fastforce
  with Cons.prems obtain t1 where s: "replace_rect_with_svg_string fromstring tid svg t = Inr ((), t1)"
    and rest: "replace_all fromstring rs t1 = Inr (u, t')"
    by (auto split: sum.splits prod.splits)
  from Cons.IH[OF template_ok_replace_svg_string[OF Cons.prems(1) s] rest] show ?case .
qed

lemma template_ok_load: "load fromstring src file u = Inr t \<Longrightarrow> template_ok t"
proof -
  assume "load fromstring src file u = Inr t"
  from load_Inr[OF this] obtain x k where "t = init_template (snd (new_tree x [])) 0 k u" by blast
  with wf_new_tree[of x] show ?thesis by (simp add: template_ok_def init_template_def)
qed

text \<open>
  C23: replacements are applied in the caller's order, and a replacement that
  raises ends the batch with the document as the earlier replacements left it
  (the exception carries that state): there is no rollback.
\<close>

theorem replace_all_partial_failure:
  assumes prefix: "replace_all fromstring xs t = Inr ((), t1)"
    and fail: "replace_rect_with_svg_string fromstring tid svg t1 = Inl (err, t2)"
  shows "replace_all fromstring (xs @ (tid, svg) # ys) t = Inl (err, t2)"
  using prefix fail by (simp add: replace_all_append)

text \<open>
  C24: with layout cleaning on, the document \<open>render_svg_string\<close> returns is the
  document after every substitution, in the caller's order, pruned of its
  layout elements: the pruning runs last, over the whole document, so it also
  removes the layout elements of the substituted fragments.
\<close>

theorem render_prunes_after_substitution:
  assumes r: "render_svg_string fromstring src file replacements True u = Inr out"
  shows "\<exists>t0 t1 x. load fromstring src file u = Inr t0 \<and> replace_all fromstring replacements t0 = Inr ((), t1) \<and>
    tostring t1 = Some x \<and> out = Some (prune x)"
proof -
  from r obtain t0 where l: "load fromstring src file u = Inr t0"
    by (auto simp: render_svg_string_def split: sum.splits)
  from r l obtain t1 where ra: "replace_all fromstring replacements t0 = Inr ((), t1)"
    by (auto simp: render_svg_string_def split: sum.splits prod.splits)
  have ok1: "template_ok t1" by (rule template_ok_replace_all[OF template_ok_load[OF l] ra])
  from r l ra obtain t2 where ex: "expunge_layout_elements t1 = Inr ((), t2)" and out: "out = tostring t2"
    by (auto simp: render_svg_string_def split: sum.splits prod.splits)
  have nl: "get_attr (store t1) (root t1) LABEL_ATTR \<noteq> Some ''layout''"
    using expunge_root_Inl[OF ok1] ex by auto
  from expunge_tostring_prune[OF ok1 nl] ex out obtain x where "tostring t1 = Some x" "out = Some (prune x)"
    by auto
  with l ra show ?thesis by blast
qed

end
