(* ===== verification/PyStr.thy ===== *)
theory PyStr
  imports Prelude
begin

text \<open>
  The Python string operations that \<open>svg.interpolate_svg_to_string\<close>
  (\<open>src/svgcomposer/svg.py\<close>) relies on, modelled from Python's documented
  semantics: \<open>str.replace\<close> scans left to right and replaces non-overlapping
  occurrences; with an empty pattern it inserts the replacement before every
  character and at the end. \<open>str.split\<close> and \<open>str.join\<close> are the reference
  definitions against which \<open>py_replace\<close> is verified. The scans are
  \<open>function\<close>s whose termination is by the length of the remaining text.
\<close>

section \<open>Definitions\<close>


function py_replace :: "string \<Rightarrow> string \<Rightarrow> string \<Rightarrow> string" where
  "py_replace old new s =
     (if old = [] then new @ concat (map (\<lambda>c. c # new) s)
      else if s = [] then []
      else if take (length old) s = old then new @ py_replace old new (drop (length old) s)
      else hd s # py_replace old new (tl s))"
  by pat_completeness auto
termination
  by (relation "measure (\<lambda>(old, new, s). length s)") auto

function py_split :: "string \<Rightarrow> string \<Rightarrow> string list" where
  "py_split sep s =
     (if sep = [] \<or> s = [] then [s]
      else if take (length sep) s = sep then [] # py_split sep (drop (length sep) s)
      else (case py_split sep (tl s) of
              [] \<Rightarrow> [[hd s]]
            | p # ps \<Rightarrow> (hd s # p) # ps))"
  by pat_completeness auto
termination
  by (relation "measure (\<lambda>(sep, s). length s)") auto

fun py_join :: "string \<Rightarrow> string list \<Rightarrow> string" where
  "py_join sep [] = []"
| "py_join sep [x] = x"
| "py_join sep (x # y # xs) = x @ sep @ py_join sep (y # xs)"

section \<open>Lemmas and properties\<close>

declare py_replace.simps [simp del] py_split.simps [simp del]

lemma py_split_nonempty: "py_split sep s \<noteq> []"
  by (induction sep s rule: py_split.induct) (subst py_split.simps, auto split: list.splits)



lemma py_join_cons_char: "py_join sep ((c # p) # ps) = c # py_join sep (p # ps)"
  by (cases ps) simp_all

lemma py_join_empty_head: "ps \<noteq> [] \<Longrightarrow> py_join sep ([] # ps) = sep @ py_join sep ps"
  by (cases ps) simp_all

text \<open>
  For a non-empty pattern, \<open>s.replace(old, new)\<close> equals \<open>new.join(s.split(old))\<close>: the scanning replacement agrees with the split-and-join reference.
\<close>

lemma py_replace_split_join:
  "old \<noteq> [] \<Longrightarrow> py_replace old new s = py_join new (py_split old s)"
proof (induction old new s rule: py_replace.induct)
  case (1 old new s)
  show ?case
  proof (cases "s = []")
    case True
    with "1.prems" show ?thesis by (simp add: py_replace.simps py_split.simps)
  next
    case s: False
    show ?thesis
    proof (cases "take (length old) s = old")
      case True
      with "1.IH"(1) "1.prems" s py_split_nonempty[of old "drop (length old) s"] show ?thesis
        by (simp add: py_replace.simps[of old new s] py_split.simps[of old s] py_join_empty_head)
    next
      case False
      with "1.IH"(2) "1.prems" s show ?thesis
        by (simp add: py_replace.simps[of old new s] py_split.simps[of old s] py_join_cons_char
            split: list.splits)
    qed
  qed
qed

end
