(* ===== verification/Cache.thy ===== *)
theory Cache
  imports Prelude "HOL-Library.Mapping"
begin

text \<open>
  \<open>svg.get_or_compute\<close> (\<open>src/svgcomposer/svg.py\<close>, lines 100-114) over the
  module's \<open>diskcache.Cache\<close>. The cache is a mapping from keys to a value and
  its expiry time; \<open>cache.get\<close> returns the value while the current time is before
  the expiry time, \<open>cache.set(..., expire=3600*24)\<close> stores it for one day. A key
  is the function's \<open>__name__\<close> with the call's arguments. The flag
  \<open>__CACHE_DISABLED\<close> is \<open>os.environ.get("DECK_SVG_CACHE_DISABLED", 0)\<close> used as
  a Python truth value. The validity invariant is the memo-table invariant: every
  entry stored under a function's name is a result that function may return for
  those arguments.
\<close>

section \<open>Definitions\<close>


type_synonym ('k, 'v) disk_cache = "('k, 'v \<times> nat) mapping"

definition ONE_DAY :: nat where
  "ONE_DAY = 3600 * 24"

definition cache_get :: "'k \<Rightarrow> nat \<Rightarrow> ('k, 'v) disk_cache \<Rightarrow> 'v option" where
  "cache_get k now c =
     (case Mapping.lookup c k of
        None \<Rightarrow> None
      | Some (v, expire_time) \<Rightarrow> if now < expire_time then Some v else None)"

definition cache_set :: "'k \<Rightarrow> 'v \<Rightarrow> nat \<Rightarrow> nat \<Rightarrow> ('k, 'v) disk_cache \<Rightarrow> ('k, 'v) disk_cache" where
  "cache_set k v now expire c = Mapping.update k (v, now + expire) c"

definition cache_disabled :: "string option \<Rightarrow> bool" where
  "cache_disabled env = (case env of None \<Rightarrow> False | Some s \<Rightarrow> s \<noteq> [])"

definition get_or_compute ::
  "bool \<Rightarrow> ('a \<Rightarrow> py_error + 'v) \<Rightarrow> string \<Rightarrow> 'a \<Rightarrow> nat \<Rightarrow> (string \<times> 'a, 'v) disk_cache \<Rightarrow>
     (py_error + 'v) \<times> (string \<times> 'a, 'v) disk_cache" where
  "get_or_compute disabled func name args now c =
     (if disabled then (func args, c)
      else
        (let key = (name, args)
         in case cache_get key now c of
              Some result \<Rightarrow> (Inr result, c)
            | None \<Rightarrow>
                (case func args of
                   Inl err \<Rightarrow> (Inl err, c)
                 | Inr result \<Rightarrow> (Inr result, cache_set key result now ONE_DAY c))))"

definition cache_valid :: "(string \<Rightarrow> 'a \<Rightarrow> 'v \<Rightarrow> bool) \<Rightarrow> (string \<times> 'a, 'v) disk_cache \<Rightarrow> bool" where
  "cache_valid P c \<longleftrightarrow> (\<forall>name args v t. Mapping.lookup c (name, args) = Some (v, t) \<longrightarrow> P name args v)"

section \<open>Lemmas and properties\<close>

lemma cache_valid_empty: "cache_valid P Mapping.empty"
  by (simp add: cache_valid_def)

lemma cache_valid_set:
  "cache_valid P c \<Longrightarrow> P name args v \<Longrightarrow> cache_valid P (cache_set (name, args) v now e c)"
  by (auto simp: cache_valid_def cache_set_def lookup_update')

lemma cache_valid_get: "cache_valid P c \<Longrightarrow> cache_get (name, args) now c = Some v \<Longrightarrow> P name args v"
  by (auto simp: cache_valid_def cache_get_def split: option.splits if_splits)

text \<open>
  C17: \<open>get_or_compute\<close> keeps the cache valid for any specification the computed function meets, and its result meets the specification: a cached value is one the function may return, and an exception comes from the function itself (exceptions are not cached).
\<close>

theorem get_or_compute_refines:
  assumes valid: "cache_valid P c" and sound: "\<forall>v. func args = Inr v \<longrightarrow> P name args v"
    and r: "get_or_compute disabled func name args now c = (res, c')"
  shows "cache_valid P c' \<and> (\<forall>v. res = Inr v \<longrightarrow> P name args v) \<and> (\<forall>e. res = Inl e \<longrightarrow> func args = Inl e)"
  using r valid sound cache_valid_get[OF valid, of name args now] cache_valid_set[OF valid, of name args]
  by (auto simp: get_or_compute_def Let_def split: if_splits option.splits sum.splits)

text \<open>
  C18: after a miss that computed and stored a value, a call with the same key returns that value without calling the function, whatever the function now is, for one day (3600 * 24 time units); from then on it calls the function again.
\<close>

theorem get_or_compute_expiry:
  assumes miss: "cache_get (name, args) now c = None"
    and first: "get_or_compute False func name args now c = (Inr v, c1)"
  shows "get_or_compute False func' name args now' c1 =
    (if now' < now + ONE_DAY then (Inr v, c1)
     else (case func' args of
             Inl e \<Rightarrow> (Inl e, c1)
           | Inr r \<Rightarrow> (Inr r, cache_set (name, args) r now' ONE_DAY c1)))"
proof -
  from miss first have c1: "c1 = cache_set (name, args) v now ONE_DAY c"
    by (auto simp: get_or_compute_def split: sum.splits)
  then have "cache_get (name, args) now' c1 = (if now' < now + ONE_DAY then Some v else None)"
    by (simp add: cache_get_def cache_set_def lookup_update)
  then show ?thesis by (simp add: get_or_compute_def split: sum.splits)
qed

lemma cache_disabled_zero: "cache_disabled (Some ''0'') \<and> cache_disabled (Some ''False'') \<and> \<not> cache_disabled None"
  by (simp add: cache_disabled_def)

end
