(* ===== verification/Svg.thy ===== *)
theory Svg
  imports Render PyStr Cache
begin

text \<open>
  The front end \<open>src/svgcomposer/svg.py\<close>: \<open>interpolate_svg_to_string\<close> takes the
  text from \<open>string\<close> or reads it from \<open>filepath\<close> (\<open>read_file\<close>, a
  parameter for \<open>open(...).read()\<close>), applies the literal replacements in
  dictionary order with \<open>str.replace\<close>, then \<open>str.format(**text_replacements)\<close>
  (the parameter \<open>format\<close>), and renders the result with
  \<open>_svgs_into_svg_string\<close>, a memoised call of \<open>render_svg_string\<close>. The call
  is modelled as the class method \<open>Template.render_svg_string\<close> with
  \<open>src=\<close> and \<open>replacements=\<close>, which \<open>svglue.py\<close> binds at module level
  as \<open>render_svg_string\<close> (line 155), the name \<open>svg.py\<close> imports (with the
  absolute import \<open>from svglue\<close>, see the findings). The state of \<open>uuid4\<close> at the call
  is the argument \<open>u\<close>; the cache is shared with other memoised functions under
  other names, which do not touch these keys.
\<close>

section \<open>Definitions\<close>


definition empty_svg_string :: string where
  "empty_svg_string = ''<svg></svg>''"

type_synonym render_cache = "(string \<times> (string \<times> (string \<times> string) list), xml option) disk_cache"

definition svgs_into_svg_string ::
  "(string \<Rightarrow> py_error + xml) \<Rightarrow> bool \<Rightarrow> nat \<Rightarrow> nat \<Rightarrow> string \<Rightarrow> (string \<times> string) list \<Rightarrow>
     render_cache \<Rightarrow> (py_error + xml option) \<times> render_cache" where
  "svgs_into_svg_string fromstring disabled u now txt replacements c =
     get_or_compute disabled
       (\<lambda>(src, reps). render_svg_string fromstring (Some src) None reps True u)
       ''render_svg_string'' (txt, replacements) now c"

definition replace_literals :: "(string \<times> string) list \<Rightarrow> string \<Rightarrow> string" where
  "replace_literals literal_replacements s =
     fold (\<lambda>(lit_src, lit_sub) s. py_replace lit_src lit_sub s) literal_replacements s"

definition MISSING_INPUT :: string where
  "MISSING_INPUT = ''Need to provide either '' @ [CHR 0x27] @ ''filepath'' @ [CHR 0x27] @ '' or '' @
     [CHR 0x27] @ ''string'' @ [CHR 0x27]"

definition interpolate_svg_to_string ::
  "(string \<Rightarrow> py_error + xml) \<Rightarrow> (string \<Rightarrow> py_error + string) \<Rightarrow>
     (string \<Rightarrow> (string \<times> string) list \<Rightarrow> py_error + string) \<Rightarrow> bool \<Rightarrow> nat \<Rightarrow> nat \<Rightarrow>
     string option \<Rightarrow> string option \<Rightarrow> (string \<times> string) list \<Rightarrow> (string \<times> string) list \<Rightarrow>
     (string \<times> string) list \<Rightarrow> render_cache \<Rightarrow> (py_error + xml option) \<times> render_cache" where
  "interpolate_svg_to_string fromstring read_file format disabled u now filepath string
     literal_replacements text_replacements svg_replacements c =
     (let has_path = (filepath \<noteq> None \<and> filepath \<noteq> Some []);
          has_string = (string \<noteq> None \<and> string \<noteq> Some [])
      in if \<not> has_path \<and> \<not> has_string then (Inl (TypeError MISSING_INPUT), c)
         else
           (case (if has_path \<and> \<not> has_string then read_file (the filepath) else Inr (the string)) of
              Inl err \<Rightarrow> (Inl err, c)
            | Inr s \<Rightarrow>
                (case format (replace_literals literal_replacements s) text_replacements of
                   Inl err \<Rightarrow> (Inl err, c)
                 | Inr txt \<Rightarrow> svgs_into_svg_string fromstring disabled u now txt svg_replacements c)))"

text \<open>
  What a cached entry of \<open>render_svg_string\<close> may be: a result of the render for
  some state of the identifier generator.
\<close>

definition render_spec :: "(string \<Rightarrow> py_error + xml) \<Rightarrow> string \<Rightarrow> string \<times> (string \<times> string) list \<Rightarrow> xml option \<Rightarrow> bool" where
  "render_spec fromstring name args v \<longleftrightarrow>
     (name = ''render_svg_string'' \<longrightarrow>
        (\<exists>u. render_svg_string fromstring (Some (fst args)) None (snd args) True u = Inr v))"

section \<open>Lemmas and properties\<close>

lemma render_spec_call:
  "render_svg_string fromstring (Some src) None reps True u = Inr v \<Longrightarrow>
     render_spec fromstring name (src, reps) v"
  by (auto simp: render_spec_def)

lemma svgs_into_svg_string_valid:
  assumes valid: "cache_valid (render_spec fromstring) c"
    and r: "svgs_into_svg_string fromstring disabled u now txt reps c = (res, c')"
  shows "cache_valid (render_spec fromstring) c' \<and>
    (\<forall>v. res = Inr v \<longrightarrow> (\<exists>u'. render_svg_string fromstring (Some txt) None reps True u' = Inr v)) \<and>
    (\<forall>e. res = Inl e \<longrightarrow> render_svg_string fromstring (Some txt) None reps True u = Inl e)"
proof -
  let ?f = "\<lambda>(src, reps). render_svg_string fromstring (Some src) None reps True u"
  let ?k = "(''render_svg_string'', (txt, reps))"
  have call: "?f (txt, reps) = render_svg_string fromstring (Some txt) None reps True u" by simp
  from r have g: "get_or_compute disabled ?f ''render_svg_string'' (txt, reps) now c = (res, c')"
    by (simp add: svgs_into_svg_string_def)
  show ?thesis
  proof (cases "\<not> disabled \<and> cache_get ?k now c \<noteq> None")
    case True
    then obtain v where hit: "cache_get ?k now c = Some v" and d: "\<not> disabled" by auto
    from g d hit have "res = Inr v" "c' = c" by (simp_all add: get_or_compute_def)
    with valid cache_valid_get[OF valid hit] show ?thesis by (simp add: render_spec_def)
  next
    case False
    have res: "res = render_svg_string fromstring (Some txt) None reps True u"
      using g False by (cases disabled) (auto simp: get_or_compute_def Let_def split: sum.splits)
    show ?thesis
    proof (cases "render_svg_string fromstring (Some txt) None reps True u")
      case (Inl e)
      with g False res have "c' = c" by (cases disabled) (auto simp: get_or_compute_def Let_def)
      with valid res Inl show ?thesis by simp
    next
      case (Inr v)
      with g False res have "c' = c \<or> c' = cache_set ?k v now ONE_DAY c"
        by (cases disabled) (auto simp: get_or_compute_def Let_def)
      with valid res Inr cache_valid_set[OF valid render_spec_call[OF Inr]] show ?thesis by auto
    qed
  qed
qed

lemma interpolate_svg_to_string_cases:
  assumes r: "interpolate_svg_to_string fromstring read_file format disabled u now filepath string
      lits texts svgs c = (res, c')"
  shows "(\<exists>err. res = Inl err \<and> c' = c) \<or>
    (\<exists>s ftxt. (string = Some s \<or> read_file (the filepath) = Inr s) \<and>
       format (replace_literals lits s) texts = Inr ftxt \<and>
       svgs_into_svg_string fromstring disabled u now ftxt svgs c = (res, c'))"
  using r by (cases string) (auto simp: interpolate_svg_to_string_def Let_def split: if_splits sum.splits)

text \<open>
  C20: without a path and without a string (\<open>None\<close> or empty), \<open>interpolate_svg_to_string\<close> raises \<open>TypeError\<close> with its message and touches neither file nor cache.
\<close>

theorem interpolate_missing_input:
  assumes "filepath \<in> {None, Some []}" and "string \<in> {None, Some []}"
  shows "interpolate_svg_to_string fromstring read_file format disabled u now filepath string lits texts svgs c =
    (Inl (TypeError MISSING_INPUT), c)"
  using assms by (auto simp: interpolate_svg_to_string_def)

text \<open>
  C21: with a non-empty string the file is not read, even when a path is given: the result depends only on the string, the replacements and the cache.
\<close>

theorem interpolate_prefers_string:
  assumes "s \<noteq> []"
  shows "interpolate_svg_to_string fromstring read_file format disabled u now filepath (Some s) lits texts svgs c =
    (case format (replace_literals lits s) texts of
       Inl err \<Rightarrow> (Inl err, c)
     | Inr txt \<Rightarrow> svgs_into_svg_string fromstring disabled u now txt svgs c)"
  using assms by (simp add: interpolate_svg_to_string_def Let_def)

text \<open>
  C16: \<open>interpolate_svg_to_string\<close> on a valid cache leaves it valid, and every document it returns is the rendering, for some state of the identifier generator, of the formatted text obtained from the given string or the file by the literal replacements; memoisation returns nothing the uncached pipeline could not.
\<close>

theorem interpolate_refines:
  assumes valid: "cache_valid (render_spec fromstring) c"
    and r: "interpolate_svg_to_string fromstring read_file format disabled u now filepath string
      lits texts svgs c = (res, c')"
  shows "cache_valid (render_spec fromstring) c' \<and>
    (\<forall>v. res = Inr v \<longrightarrow> (\<exists>s txt u'. (string = Some s \<or> read_file (the filepath) = Inr s) \<and>
        format (replace_literals lits s) texts = Inr txt \<and>
        render_svg_string fromstring (Some txt) None svgs True u' = Inr v))"
proof -
  from interpolate_svg_to_string_cases[OF r] show ?thesis
  proof
    assume "\<exists>err. res = Inl err \<and> c' = c"
    with valid show ?thesis by auto
  next
    assume "\<exists>s ftxt. (string = Some s \<or> read_file (the filepath) = Inr s) \<and>
       format (replace_literals lits s) texts = Inr ftxt \<and>
       svgs_into_svg_string fromstring disabled u now ftxt svgs c = (res, c')"
    then obtain s ftxt where src: "string = Some s \<or> read_file (the filepath) = Inr s"
      and f: "format (replace_literals lits s) texts = Inr ftxt"
      and sv: "svgs_into_svg_string fromstring disabled u now ftxt svgs c = (res, c')" by blast
    from svgs_into_svg_string_valid[OF valid sv] src f show ?thesis by blast
  qed
qed

lemma replace_literals_Cons: "replace_literals ((a, b) # lits) s = replace_literals lits (py_replace a b s)"
  by (simp add: replace_literals_def)

text \<open>
  C19: with non-empty patterns, the literal replacement loop equals the same loop
  with each \<open>str.replace\<close> computed as \<open>new.join(s.split(old))\<close>.
\<close>

theorem replace_literals_split_join:
  "\<forall>(a, b) \<in> set lits. a \<noteq> [] \<Longrightarrow>
     replace_literals lits s = fold (\<lambda>(a, b) s. py_join b (py_split a s)) lits s"
proof (induction lits arbitrary: s)
  case Nil
  then show ?case by (simp add: replace_literals_def)
next
  case (Cons l lits)
  obtain a b where l: "l = (a, b)" by fastforce
  with Cons.prems have "a \<noteq> []" by simp
  with Cons l show ?case by (simp add: replace_literals_Cons py_replace_split_join)
qed

end
