(* ===== verification/Raster.thy ===== *)
theory Raster
  imports Svg
begin

text \<open>
  The rasterising glue of \<open>src/svgcomposer/svg.py\<close>: \<open>svg_string_to_pil\<close>
  (lines 82-83) memoises \<open>_svg_string_to_pil\<close>, \<open>constant_svg\<close> (lines 21-25)
  rasterises a file once and returns a constant function, \<open>interpolate_svg\<close>
  (lines 64-79) rasterises the text \<open>interpolate_svg_to_string\<close> returns.
  The rasteriser \<open>_svg_string_to_pil\<close> (cairosvg and PIL, lines 86-90) is the
  parameter \<open>raster\<close>, the image type a type variable; the character printing of
  \<open>etree.tostring(..., encoding=str)\<close> is the parameter \<open>print_xml\<close>. Both memoised
  functions share the module's one \<open>diskcache.Cache\<close>, under keys that begin with
  the function's name; the names differ, so no entry of one is ever read by the
  other, and the model keeps the two key spaces as two caches, the rendered
  documents and the images.
\<close>

section \<open>Definitions\<close>

type_synonym 'img image_cache = "(string \<times> string, 'img) disk_cache"

definition svg_string_to_pil ::
  "(string \<Rightarrow> py_error + 'img) \<Rightarrow> bool \<Rightarrow> nat \<Rightarrow> string \<Rightarrow> 'img image_cache \<Rightarrow>
     (py_error + 'img) \<times> 'img image_cache" where
  "svg_string_to_pil raster disabled now svg c = get_or_compute disabled raster ''_svg_string_to_pil'' svg now c"

definition constant_svg ::
  "(string \<Rightarrow> py_error + string) \<Rightarrow> (string \<Rightarrow> py_error + 'img) \<Rightarrow> bool \<Rightarrow> nat \<Rightarrow> string \<Rightarrow>
     'img image_cache \<Rightarrow> (py_error + ('a \<Rightarrow> 'img)) \<times> 'img image_cache" where
  "constant_svg read_file raster disabled now path c =
     (case read_file path of
        Inl err \<Rightarrow> (Inl err, c)
      | Inr svg_data \<Rightarrow>
          (let (r, c') = svg_string_to_pil raster disabled now svg_data c
           in case r of
                Inl err \<Rightarrow> (Inl err, c')
              | Inr pil \<Rightarrow> (Inr (\<lambda>_. pil), c')))"

text \<open>
  \<open>interpolate_svg\<close> passes the rendered document to \<open>svg_string_to_pil\<close>. The
  model's \<open>None\<close> (readback out of fuel, which \<open>tostring_terminates\<close> excludes)
  stands for a Python \<open>None\<close>, on which \<open>_svg_string_to_pil\<close> raises at
  \<open>svg.encode\<close> and nothing is cached.
\<close>

definition interpolate_svg ::
  "(string \<Rightarrow> py_error + xml) \<Rightarrow> (string \<Rightarrow> py_error + string) \<Rightarrow>
     (string \<Rightarrow> (string \<times> string) list \<Rightarrow> py_error + string) \<Rightarrow> (xml \<Rightarrow> string) \<Rightarrow>
     (string \<Rightarrow> py_error + 'img) \<Rightarrow> bool \<Rightarrow> nat \<Rightarrow> nat \<Rightarrow>
     string option \<Rightarrow> string option \<Rightarrow> (string \<times> string) list \<Rightarrow> (string \<times> string) list \<Rightarrow>
     (string \<times> string) list \<Rightarrow> render_cache \<times> 'img image_cache \<Rightarrow>
     (py_error + 'img) \<times> (render_cache \<times> 'img image_cache)" where
  "interpolate_svg fromstring read_file format print_xml raster disabled u now filepath string
     literal_replacements text_replacements svg_replacements cs =
     (let (rc, pc) = cs;
          (doc, rc') = interpolate_svg_to_string fromstring read_file format disabled u now filepath string
            literal_replacements text_replacements svg_replacements rc
      in case doc of
           Inl err \<Rightarrow> (Inl err, (rc', pc))
         | Inr None \<Rightarrow> (Inl (AttributeError ''encode''), (rc', pc))
         | Inr (Some d) \<Rightarrow> (let (r, pc') = svg_string_to_pil raster disabled now (print_xml d) pc in (r, (rc', pc'))))"

text \<open>What a cached image may be: the rasterisation of its key's text.\<close>

definition raster_spec :: "(string \<Rightarrow> py_error + 'img) \<Rightarrow> string \<Rightarrow> string \<Rightarrow> 'img \<Rightarrow> bool" where
  "raster_spec raster name svg v \<longleftrightarrow> (name = ''_svg_string_to_pil'' \<longrightarrow> raster svg = Inr v)"

section \<open>Lemmas and properties\<close>

lemma svg_string_to_pil_valid:
  assumes valid: "cache_valid (raster_spec raster) c"
    and r: "svg_string_to_pil raster disabled now svg c = (res, c')"
  shows "res = raster svg \<and> cache_valid (raster_spec raster) c'"
proof -
  have hit: "cache_get (''_svg_string_to_pil'', svg) now c = Some v \<Longrightarrow> raster svg = Inr v" for v
    using cache_valid_get[OF valid] by (force simp: raster_spec_def)
  have set: "raster svg = Inr v \<Longrightarrow> cache_valid (raster_spec raster) (cache_set (''_svg_string_to_pil'', svg) v now ONE_DAY c)" for v
    by (rule cache_valid_set[OF valid]) (simp add: raster_spec_def)
  from r hit set valid show ?thesis
    by (auto simp: svg_string_to_pil_def get_or_compute_def Let_def split: if_splits option.splits sum.splits)
qed

text \<open>
  C25: on an image cache whose entries are rasterisations of their keys,
  \<open>interpolate_svg\<close> leaves the render cache as \<open>interpolate_svg_to_string\<close>
  leaves it, keeps the image cache valid, and returns exactly the rasterisation of
  the printed document \<open>interpolate_svg_to_string\<close> returns (its exception if it
  raises): memoising the images changes no result.
\<close>

theorem interpolate_svg_raster:
  assumes valid: "cache_valid (raster_spec raster) pc"
    and r: "interpolate_svg fromstring read_file format print_xml raster disabled u now filepath string
      lits texts svgs (rc, pc) = (res, (rc', pc'))"
  shows "cache_valid (raster_spec raster) pc' \<and>
    rc' = snd (interpolate_svg_to_string fromstring read_file format disabled u now filepath string lits texts svgs rc) \<and>
    res = (case fst (interpolate_svg_to_string fromstring read_file format disabled u now filepath string
                       lits texts svgs rc) of
             Inl err \<Rightarrow> Inl err
           | Inr None \<Rightarrow> Inl (AttributeError ''encode'')
           | Inr (Some d) \<Rightarrow> raster (print_xml d))"
proof -
  obtain doc rc1 where i: "interpolate_svg_to_string fromstring read_file format disabled u now filepath string
      lits texts svgs rc = (doc, rc1)" by fastforce
  show ?thesis
  proof (cases doc)
    case (Inl err)
    with r i valid show ?thesis by (simp add: interpolate_svg_def)
  next
    case (Inr od)
    show ?thesis
    proof (cases od)
      case None
      with r i valid Inr show ?thesis by (simp add: interpolate_svg_def)
    next
      case (Some d)
      obtain r1 pc1 where s: "svg_string_to_pil raster disabled now (print_xml d) pc = (r1, pc1)" by fastforce
      with r i Inr Some have "res = r1" "pc' = pc1" "rc' = rc1" by (simp_all add: interpolate_svg_def)
      with svg_string_to_pil_valid[OF valid s] i Inr Some show ?thesis by simp
    qed
  qed
qed

text \<open>
  C26: \<open>constant_svg\<close> reads the file once and rasterises its text once, at the
  call: on a valid image cache it returns the function that maps every argument
  to that one image (or the rasteriser's exception), and the cache stays valid; a
  file that cannot be read raises before any rasterisation, the cache unchanged.
\<close>

theorem constant_svg_image:
  assumes valid: "cache_valid (raster_spec raster) c"
  shows "\<exists>c'. cache_valid (raster_spec raster) c' \<and>
    constant_svg read_file raster disabled now path c =
      (case read_file path of
         Inl err \<Rightarrow> (Inl err, c)
       | Inr svg_data \<Rightarrow>
           (case raster svg_data of
              Inl err \<Rightarrow> (Inl err, c')
            | Inr pil \<Rightarrow> (Inr (\<lambda>_. pil), c')))"
proof (cases "read_file path")
  case (Inl err)
  with valid show ?thesis by (fastforce simp: constant_svg_def)
next
  case (Inr svg_data)
  obtain r1 c1 where s: "svg_string_to_pil raster disabled now svg_data c = (r1, c1)" by fastforce
  from svg_string_to_pil_valid[OF valid s] have "r1 = raster svg_data" "cache_valid (raster_spec raster) c1"
    by simp_all
  with s Inr show ?thesis by (auto simp: constant_svg_def split: sum.splits)
qed

end
