(* ===== verification/Package.thy ===== *)
theory Package
  imports Raster
begin

text \<open>
  The module-level names of the package. \<open>svglue.py\<close> ends by binding \<open>load\<close>
  and \<open>render_svg_string\<close> to the class methods of \<open>Template\<close> (lines 154-155);
  \<open>src/svgcomposer/__init__.py\<close> sets the metadata \<open>__version__\<close>,
  \<open>__author__\<close> and \<open>__all__\<close> and re-exports four functions of \<open>svg.py\<close>. Each
  binding is a definition equal to the object it names. The import statements
  themselves are not modelled; the findings record that the package import runs
  \<open>svg.py\<close>, whose absolute \<open>from svglue import\<close> does not name the sibling
  module.
\<close>

section \<open>Definitions\<close>

definition svglue_load where
  "svglue_load = load"

definition svglue_render_svg_string where
  "svglue_render_svg_string = render_svg_string"

definition version :: string where
  "version = ''0.1.0''"

definition author :: string where
  "author = ''Med Mahmoud <medthehatta@gmail.com>''"

definition all_names :: "string list" where
  "all_names = []"

definition package_empty_svg_string :: string where
  "package_empty_svg_string = empty_svg_string"

definition package_constant_svg where
  "package_constant_svg = constant_svg"

definition package_interpolate_svg_to_string where
  "package_interpolate_svg_to_string = interpolate_svg_to_string"

definition package_svg_string_to_pil where
  "package_svg_string_to_pil = svg_string_to_pil"

end
