(* ===== verification/Spec2Isabelle.thy ===== *)
theory Spec2Isabelle
  imports Package
begin

text \<open>
  \<^bold>\<open>svgcomposer: a verified model of the SVG template engine.\<close>

  \<^medskip>\<^bold>\<open>The program.\<close> \<open>src/svgcomposer/svglue.py\<close> defines the class \<open>Template\<close>,
  a parsed SVG document (an lxml element or element tree) with two caches: the
  elements found by identifier (\<open>_tid_cache\<close>) and the \<open>svg:defs\<close> container
  (\<open>_defs\<close>). \<open>load\<close> parses a string or a file; \<open>get_by_id\<close> finds the unique
  element with a given \<open>id\<close>; \<open>get_defs\<close> finds or creates the definitions
  container; \<open>replace_rect_with_svg_string\<close>, \<open>_bytes\<close> and \<open>_etree\<close> turn a
  placeholder rectangle into a \<open>use\<close> element that references a parsed fragment
  appended to the container; \<open>expunge_layout_elements\<close> removes every element
  labelled \<open>inkscape:label="layout"\<close>; \<open>tostring\<close> serialises; the class method
  \<open>render_svg_string\<close> composes load, the replacements, the pruning and
  \<open>tostring\<close>. \<open>src/svgcomposer/svg.py\<close> is a front end (text interpolation, a
  disk cache, rasterisation) that calls \<open>render_svg_string\<close>;
  \<open>src/svgcomposer/__init__.py\<close> re-exports four of its functions.

  \<^medskip>\<^bold>\<open>The theories.\<close>
  \<^item> \<open>Prelude\<close>: the Python exceptions (\<^typ>\<open>py_error\<close>), the result type
    \<^typ>\<open>('a, 's) exc\<close> of a method that returns a value and the object's new
    state or raises with the state at the raise, lxml attribute dictionaries as
    association lists (\<open>attr_set\<close> is \<open>elem.set\<close>: a present key keeps its
    position), and list lemmas.
  \<^item> \<open>Etree\<close>: the part of lxml the code calls, modelled from the specification
    as an arena: a \<^typ>\<open>store\<close> is a list of nodes (tag, attributes, children,
    parent), an element is its address. Parsing allocates a tree in preorder
    (\<open>new_tree\<close>); \<open>iter\<close> is document order (the XPath \<open>//*\<close>); \<open>tree_of\<close>
    reads an element back as a tree (what \<open>tostring\<close> prints); \<open>set_attr\<close>,
    \<open>del_attr\<close>, \<open>set_tag\<close>, \<open>append_child\<close>, \<open>insert_child\<close>, \<open>remove_child\<close>
    are the element methods. \<open>wf_store\<close> says that children lists and parent
    pointers agree, children lists are distinct, and a child's address is above
    its parent's; these lemmas are the model's consistency, on which the claims
    rest, not claims about the program.
  \<^item> \<open>Template\<close>: the state of a \<open>Template\<close> object as a record (store, root,
    document kind, the two caches, the state of \<open>uuid4\<close>) and the methods
    \<open>get_by_id\<close>, \<open>get_defs\<close>, \<open>replace_rect_with_etree\<close> (every statement in
    source order, each \<open>KeyError\<close> and \<open>AttributeError\<close> a branch),
    \<open>replace_rect_with_svg_string\<close> and \<open>tostring\<close>; the model invariant
    \<open>template_ok\<close>; claims C1 to C9 and C14.
  \<^item> \<open>Layout\<close>: \<open>expunge_layout_elements\<close> (the label query, the parent map
    taken before the loop, the removal loop) and its abstract specification
    \<open>prune\<close> on trees; claims C10 to C12.
  \<^item> \<open>Render\<close>: \<open>load\<close> and \<open>render_svg_string\<close>; claims C13, C15 and C22 to C24.
  \<^item> \<open>PyStr\<close>: Python's \<open>str.replace\<close>, modelled from Python's semantics as a
    \<open>function\<close> terminating by the length of the unscanned text, and verified
    against the reference definitions \<open>str.split\<close> and \<open>str.join\<close>.
  \<^item> \<open>Cache\<close>: \<open>svg.get_or_compute\<close> over the disk cache, a mapping from keys
    (function name and arguments) to a value and its expiry time, with the
    disable flag \<open>cache_disabled\<close>; the memo-table invariant \<open>cache_valid\<close>;
    claims C17 and C18.
  \<^item> \<open>Svg\<close>: \<open>svg.interpolate_svg_to_string\<close> and \<open>_svgs_into_svg_string\<close>,
    composed with \<open>Render\<close> through \<open>Cache\<close>; claims C16 and C19 to C21.
  \<^item> \<open>Raster\<close>: \<open>svg.svg_string_to_pil\<close>, \<open>constant_svg\<close> and
    \<open>interpolate_svg\<close>, the memoised rasterisation and its two callers, with the
    image cache invariant \<open>raster_spec\<close>; claims C25 and C26.
  \<^item> \<open>Package\<close>: the module-level bindings of \<open>svglue.py\<close> (lines 154-155) and
    the metadata and re-exports of \<open>__init__.py\<close>, each a definition equal to the
    object it names.
  \<^item> this theory: example documents and, for each claim with hypotheses, a
    witness that applies it to a concrete document, evaluated by \<open>code_simp\<close>.

  \<^medskip>\<^bold>\<open>Modelling choices.\<close> \<open>uuid4\<close> is a counter in the state: the \<open>n\<close>-th
  identifier is \<open>uuid_str n\<close>, and \<open>uuid_str_inj\<close> shows distinct counters give
  distinct identifiers; the distinctness of real \<open>uuid4\<close> values is assumed in
  this way, not proved. The XML parser \<open>etree.fromstring\<close> is a parameter
  \<open>fromstring\<close> from text to a tree or \<open>XMLSyntaxError\<close>; the UTF-8 encoding
  the code applies before parsing (\<open>svglue.py\<close> line 100, \<open>svg.py\<close> line 59) is
  part of that parameter, so the \<open>UnicodeEncodeError\<close> of a text holding a lone
  surrogate is not a branch of the model. A fragment is a tree value copied into
  the document; lxml moving an element that the caller still holds, or one taken
  from the document itself, is not represented. XPath queries are written out as
  filters of \<open>iter\<close>; for an identifier holding a quote the model raises
  \<open>XPathEvalError\<close>, although lxml may evaluate a different valid query (see
  \<open>id_query\<close>). A Python dictionary of replacements is a list, in its iteration
  order (the model does not exclude repeated keys). Qualified names are the
  strings lxml uses (\<open>{namespace}local\<close>). \<open>load\<close> takes the contents of the
  file rather than its path.

  \<^medskip>\<^bold>\<open>Fuel.\<close> \<open>desc\<close> and \<open>to_xml\<close> recurse over children with fuel; \<open>iter\<close> and
  \<open>tree_of\<close> give them the length of the store. This is enough: in a
  well-formed store a child's address exceeds its parent's, so the depth below
  \<open>a\<close> is at most \<open>length s - a\<close> (\<open>desc_fuel\<close>, \<open>to_xml_fuel\<close>: more fuel gives
  the same result; \<open>to_xml_total\<close>, \<open>tree_of_total\<close>: the readback of an element
  of a well-formed store is never \<open>None\<close>).

  \<^medskip>\<^bold>\<open>What the claims show.\<close> Lookup by identifier succeeds exactly on a
  unique match and caches it (C1), and raises \<open>LookupError\<close> otherwise (C2). A
  substitution rewrites the placeholder in place into a \<open>use\<close> element keeping
  only \<open>x\<close>, \<open>y\<close> and the reference (C3, C6); the fragment receives the
  generated identifier and the placeholder's size and is appended to the
  container (C4, C5); a raise before the container is touched leaves the document
  as it was (C7); successive substitutions give each definition the identifier
  generated for it (C9). The pruner implements \<open>prune\<close> (C10), raises exactly
  when the root is a layout element (C11), and leaves no layout element (C12).
  Loading and serialising is a round trip (C13); without input, rendering fails
  in \<open>load\<close> (C22); a batch stops at the first failing replacement with the
  earlier ones applied (C23); with cleaning on, the rendered document is the
  document after all substitutions, pruned (C24). The front end keeps the render
  cache valid and returns only renderings of the prepared text (C16);
  \<open>get_or_compute\<close> preserves the memo-table invariant and caches no exception
  (C17) and serves a stored value for exactly one day (C18); the literal
  replacement loop equals its split-and-join reference in the same order (C19);
  without a path or a string the front end raises \<open>TypeError\<close> (C20), and a
  string takes precedence over a path (C21). The rasterising front end returns
  exactly the rasterisation of what \<open>interpolate_svg_to_string\<close> returns (C25);
  \<open>constant_svg\<close> rasterises once, at the call, and returns a constant function
  (C26).

  \<^medskip>\<^bold>\<open>Front-end modelling choices.\<close> \<open>open(...).read()\<close> and
  \<open>str.format(**kw)\<close> are parameters (\<open>read_file\<close>, \<open>format\<close>): file I/O
  and Python's formatter. \<open>_svg_string_to_pil\<close> (cairosvg rendering to PNG,
  PIL's \<open>Image.open\<close>) is the parameter \<open>raster\<close> and the character printing
  of \<open>etree.tostring\<close> the parameter \<open>print_xml\<close>. The one
  \<open>diskcache.Cache\<close> of the module holds both memoised functions under keys
  that begin with their names; as the names differ, the model keeps the two key
  spaces as two caches, of documents and of images. The current time and the
  state of \<open>uuid4\<close> at a call are arguments. \<open>svg.py\<close> imports
  \<open>render_svg_string\<close>, which \<open>svglue.py\<close> binds at module level to the class
  method \<open>Template.render_svg_string\<close> (line 155); the model calls that method.
  Since that method draws fresh identifiers, a memoised result is a rendering for
  \<^emph>\<open>some\<close> generator state, which is what \<open>render_spec\<close> and C16 say.

  \<^medskip>\<^bold>\<open>Findings.\<close> The generated \<open>id\<close> set on the \<open>use\<close> element is deleted
  again by the attribute loop (C3). A second substitution for the same
  identifier hits the stale cache and raises \<open>KeyError('height')\<close> (C8). Without
  a \<open>defs\<close> element, \<open>get_defs\<close> calls \<open>getroot\<close> on an element (documents
  loaded from a string, the path \<open>render_svg_string\<close> takes from \<open>svg.py\<close>), or
  caches the \<open>None\<close> returned by \<open>insert\<close> (documents loaded from a file), so
  the first substitution raises (C15) and repeated calls insert several
  containers (C14). The pruning also removes layout elements inside substituted
  fragments (C24). In \<open>svg.py\<close> the absolute import \<open>from svglue import
  render_svg_string\<close> does not name the sibling module \<open>svgcomposer.svglue\<close>;
  the cache is disabled by any non-empty value of its environment variable,
  \<open>"0"\<close> included (\<open>cache_disabled_zero\<close>); a memoised rendering repeats the
  identifiers of the first one (C16).

  \<^medskip>\<^bold>\<open>Not modelled.\<close> In \<open>svg.py\<close>: the body of \<open>_svg_string_to_pil\<close>
  (lines 86-90), image I/O through cairosvg and PIL, and the lazy loading of
  the PIL image it returns; the formatter \<open>str.format\<close>, file reading and the
  UTF-8 encoding of texts (parameters). The character-level output of
  \<open>etree.tostring\<close> and the parser itself (lxml). Eviction and size limits of
  diskcache. The import statements of the modules (their failure is a finding).
  \<open>TemplateParseError\<close> is a constructor of \<^typ>\<open>py_error\<close> that nothing
  raises, as in the code. The license header and comments of the sources.
\<close>

section \<open>Example documents\<close>

definition ex_src :: xml where
  "ex_src = Element SVG_TAG []
     [Element DEFS_TAG [] [],
      Element RECT_TAG [(''id'', ''slot''), (''x'', ''3''), (''height'', ''10''), (''width'', ''10''),
        (''style'', ''fill:red'')] [],
      Element RECT_TAG [(''id'', ''slot2''), (''y'', ''5''), (''height'', ''20''), (''width'', ''30'')] []]"

definition ex_tpl :: template where
  "ex_tpl = init_template (snd (new_tree ex_src [])) 0 FromString 0"

definition ex_frag :: xml where
  "ex_frag = Element ''g'' [(''id'', ''frag'')] [Element ''circle'' [(''r'', ''4'')] []]"

text \<open>The template after substituting \<open>ex_frag\<close> for \<open>slot\<close>, then for \<open>slot2\<close>.\<close>

definition ex_t1 :: template where
  "ex_t1 = exc_state (replace_rect_with_etree ''slot'' ex_frag ex_tpl)"

definition ex_t2 :: template where
  "ex_t2 = exc_state (replace_rect_with_etree ''slot2'' ex_frag ex_t1)"

text \<open>
  A document with layout elements: a labelled guide rectangle, and a group whose
  labelled child has a child of its own.
\<close>

definition ex_layout_src :: xml where
  "ex_layout_src = Element SVG_TAG []
     [Element RECT_TAG [(LABEL_ATTR, ''layout''), (''id'', ''guide'')] [],
      Element ''g'' [(''id'', ''grp'')]
        [Element ''g'' [(LABEL_ATTR, ''layout'')] [Element ''circle'' [] []],
         Element ''path'' [(''d'', ''M0 0'')] []]]"

definition ex_ltpl :: template where
  "ex_ltpl = init_template (snd (new_tree ex_layout_src [])) 0 FromString 0"

text \<open>A document whose root is itself a layout element.\<close>

definition ex_rtpl :: template where
  "ex_rtpl = init_template (snd (new_tree (Element SVG_TAG [(LABEL_ATTR, ''layout'')] []) [])) 0 FromString 0"

text \<open>
  The example of the specification: a template without namespace and without
  \<open>defs\<close>, as text and as the tree the parser returns.
\<close>

definition spec_text :: string where
  "spec_text = ''<svg><rect id=\"slot\" height=\"10\" width=\"10\"/></svg>''"

definition spec_src :: xml where
  "spec_src = Element ''svg'' [] [Element ''rect'' [(''id'', ''slot''), (''height'', ''10''), (''width'', ''10'')] []]"

definition frag_text :: string where
  "frag_text = ''<g id=\"frag\"><circle r=\"4\"/></g>''"

text \<open>
  A template with a placeholder whose identifier is filled in by a literal
  replacement: \<open>tpl_pattern\<close> with \<open>PLACE\<close> replaced by \<open>slot\<close> is
  \<open>tpl_text\<close>, the text of \<open>ex_src\<close>.
\<close>

definition tpl_text :: string where
  "tpl_text = ''<svg xmlns=\"http://www.w3.org/2000/svg\"><defs/><rect id=\"slot\" x=\"3\" height=\"10\" width=\"10\" style=\"fill:red\"/><rect id=\"slot2\" y=\"5\" height=\"20\" width=\"30\"/></svg>''"

definition tpl_pattern :: string where
  "tpl_pattern = ''<svg xmlns=\"http://www.w3.org/2000/svg\"><defs/><rect id=\"PLACE\" x=\"3\" height=\"10\" width=\"10\" style=\"fill:red\"/><rect id=\"slot2\" y=\"5\" height=\"20\" width=\"30\"/></svg>''"

text \<open>A parser that knows these texts (the model's parser is a parameter).\<close>

definition ex_parser :: "string \<Rightarrow> py_error + xml" where
  "ex_parser txt =
     (if txt = spec_text then Inr spec_src else if txt = frag_text then Inr ex_frag
      else if txt = tpl_text then Inr ex_src else Inl XMLSyntaxError)"

text \<open>\<open>str.format\<close> on a text without replacement fields returns it unchanged.\<close>

definition no_fields_format :: "string \<Rightarrow> (string \<times> string) list \<Rightarrow> py_error + string" where
  "no_fields_format s kw = Inr s"

text \<open>A file system with one file.\<close>

definition ex_read :: "string \<Rightarrow> py_error + string" where
  "ex_read p = (if p = ''tpl.svg'' then Inr tpl_text else Inl (KeyError p))"

text \<open>A pure function memoised in the witnesses of the cache.\<close>

definition double :: "nat \<Rightarrow> py_error + nat" where
  "double a = Inr (2 * a)"

text \<open>The specification's example loaded from a string, and from a file.\<close>

definition ex_stpl :: template where
  "ex_stpl = init_template (snd (new_tree spec_src [])) 0 FromString 0"

definition ex_ftpl :: template where
  "ex_ftpl = init_template (snd (new_tree spec_src [])) 0 FromFile 0"

text \<open>A stand-in printer (the root tag) and rasteriser (the text length) for the image witnesses.\<close>

definition ex_print :: "xml \<Rightarrow> string" where
  "ex_print x = (case x of Element t as cs \<Rightarrow> t)"

definition ex_raster :: "string \<Rightarrow> py_error + nat" where
  "ex_raster svg = (if svg = [] then Inl ValueError else Inr (length svg))"

section \<open>Witnesses\<close>

lemma ex_tpl_ok: "template_ok ex_tpl"
  by code_simp simp

lemma ex_render_spec: "render_svg_string ex_parser (Some spec_text) None [] True 0 = Inr (Some spec_src)"
  by code_simp

lemma ex_load_tpl: "load ex_parser (Some tpl_text) None 0 = Inr ex_tpl"
  by code_simp

theorem get_by_id_unique_witness:
  "template_ok ex_tpl \<and> map_of (tid_cache ex_tpl) ''slot'' = None \<and> CHR 0x27 \<notin> set ''slot'' \<and>
   get_by_id ''slot'' ex_tpl = Inr (2, ex_tpl\<lparr>tid_cache := [(''slot'', 2)]\<rparr>)"
proof -
  note h1 = ex_tpl_ok
  have h2: "map_of (tid_cache ex_tpl) ''slot'' = None" by code_simp
  have h3: "CHR 0x27 \<notin> set ''slot''" by simp
  have r: "2 \<in> set (iter (store ex_tpl) (root ex_tpl)) \<and>
    get_attr (store ex_tpl) 2 ''id'' = Some ''slot'' \<and>
    (\<forall>a \<in> set (iter (store ex_tpl) (root ex_tpl)).
       get_attr (store ex_tpl) a ''id'' = Some ''slot'' \<longrightarrow> a = 2) \<and>
    ex_tpl\<lparr>tid_cache := [(''slot'', 2)]\<rparr> =
      ex_tpl\<lparr>tid_cache := AList.update ''slot'' 2 (tid_cache ex_tpl)\<rparr>"
    by code_simp
  from Template.get_by_id_unique[OF h1 h2 h3] r h1 h2 h3 show ?thesis by blast
qed

theorem get_by_id_lookup_error_witness:
  "template_ok ex_tpl \<and> map_of (tid_cache ex_tpl) ''none'' = None \<and> CHR 0x27 \<notin> set ''none'' \<and>
   card {a \<in> set (iter (store ex_tpl) (root ex_tpl)). get_attr (store ex_tpl) a ''id'' = Some ''none''} \<noteq> 1 \<and>
   get_by_id ''none'' ex_tpl = Inl (LookupError ''none'', ex_tpl)"
proof -
  note h1 = ex_tpl_ok
  have h2: "map_of (tid_cache ex_tpl) ''none'' = None" by code_simp
  have h3: "CHR 0x27 \<notin> set ''none''" by simp
  have h4: "card {a \<in> set (iter (store ex_tpl) (root ex_tpl)).
      get_attr (store ex_tpl) a ''id'' = Some ''none''} \<noteq> 1"
  proof -
    have "{a \<in> set (iter (store ex_tpl) (root ex_tpl)). get_attr (store ex_tpl) a ''id'' = Some ''none''} = {}"
      by code_simp
    then show ?thesis by (metis card.empty zero_neq_one)
  qed
  from Template.get_by_id_lookup_error[OF h1 h2 h3 h4] h1 h2 h3 h4 show ?thesis by blast
qed

lemma ex_ltpl_ok: "template_ok ex_ltpl"
  by code_simp simp

lemma ex_rtpl_ok: "template_ok ex_rtpl"
  by code_simp simp

lemma ex_ftpl_ok: "template_ok ex_ftpl"
  by code_simp simp

lemma ex_replace1: "replace_rect_with_etree ''slot'' ex_frag ex_tpl = Inr ((), ex_t1)"
  unfolding ex_t1_def by code_simp

lemma ex_replace2: "replace_rect_with_etree ''slot2'' ex_frag ex_t1 = Inr ((), ex_t2)"
  unfolding ex_t2_def by code_simp

lemma uuid_str_0: "uuid_str 0 = ''uuid-0''" and uuid_str_2: "uuid_str 2 = ''uuid-2''"
  by code_simp+

lemma ex_get_slot: "get_by_id ''slot'' ex_tpl = Inr (2, ex_tpl\<lparr>tid_cache := [(''slot'', 2)]\<rparr>)"
  by code_simp

theorem replace_use_element_witness:
  "tag (store ex_t1 ! 2) = USE_TAG \<and>
   attrib (store ex_t1 ! 2) = [(''x'', ''3''), (HREF_ATTR, ''#uuid-0'')]"
proof -
  have "attrib (store ex_tpl ! 2) = [(''id'', ''slot''), (''x'', ''3''), (''height'', ''10''), (''width'', ''10''),
        (''style'', ''fill:red'')]" "uuid_state ex_tpl = 0" by code_simp+
  with Template.replace_use_element[OF ex_tpl_ok ex_replace1 ex_get_slot] show ?thesis
    by (simp add: ALLOWED_ATTRS_def uuid_str_0)
qed

theorem replace_size_propagation_witness:
  "get_attr (store ex_t1) 4 ''height'' = Some ''10'' \<and> get_attr (store ex_t1) 4 ''width'' = Some ''10'' \<and>
   get_attr (store ex_t1) 2 ''height'' = None"
proof -
  have "length (store ex_tpl) = 4" "get_attr (store ex_tpl) 2 ''height'' = Some ''10''"
    "get_attr (store ex_tpl) 2 ''width'' = Some ''10''" by code_simp+
  with Template.replace_size_propagation[OF ex_tpl_ok ex_replace1 ex_get_slot] show ?thesis by simp
qed

theorem replace_reference_target_witness:
  "defs ex_t1 = Some 1 \<and> children (store ex_t1 ! 1) = [4] \<and>
   tree_of (store ex_t1) 4 = Some (Element ''g'' [(''id'', ''uuid-0''), (''height'', ''10''), (''width'', ''10'')]
     [Element ''circle'' [(''r'', ''4'')] []]) \<and>
   get_attr (store ex_t1) 2 HREF_ATTR = Some ''#uuid-0''"
proof -
  have f: "length (store ex_tpl) = 4" "get_attr (store ex_tpl) 2 ''height'' = Some ''10''"
    "get_attr (store ex_tpl) 2 ''width'' = Some ''10''" "children (store ex_tpl ! 1) = []"
    "uuid_state ex_tpl = 0" "defs ex_t1 = Some 1" by code_simp+
  from Template.replace_reference_target[OF ex_tpl_ok ex_replace1 ex_get_slot] f show ?thesis
    by (simp add: ex_frag_def uuid_str_0)
qed

theorem replace_in_place_witness:
  "parent (store ex_t1 ! 2) = Some 0 \<and> children (store ex_t1 ! 2) = [] \<and> store ex_t1 ! 3 = store ex_tpl ! 3"
proof -
  have f: "parent (store ex_tpl ! 2) = Some 0" "children (store ex_tpl ! 2) = []"
    "length (store ex_tpl) = 4" "defs ex_t1 = Some 1" by code_simp+
  from Template.replace_in_place[OF ex_tpl_ok ex_replace1 ex_get_slot] f show ?thesis by simp
qed

theorem replace_error_unchanged_witness:
  "store (exc_state (replace_rect_with_etree ''slot'' ex_frag ex_t1)) = store ex_t1 \<and>
   root (exc_state (replace_rect_with_etree ''slot'' ex_frag ex_t1)) = root ex_t1"
proof -
  have r: "replace_rect_with_etree ''slot'' ex_frag ex_t1 =
      Inl (KeyError ''height'', exc_state (replace_rect_with_etree ''slot'' ex_frag ex_t1))"
    by code_simp
  from Template.replace_error_unchanged[OF r] r show ?thesis by simp
qed

theorem replace_same_id_twice_witness:
  "replace_rect_with_etree ''slot'' ex_frag ex_t1 = Inl (KeyError ''height'', ex_t1\<lparr>uuid_state := 3\<rparr>)"
proof -
  have "uuid_state ex_t1 = 2" by code_simp
  with Template.replace_same_id_twice[OF ex_tpl_ok ex_replace1, of ex_frag] show ?thesis by simp
qed

theorem replace_fresh_ids_witness:
  "get_attr (store ex_t1) 4 ''id'' = Some ''uuid-0'' \<and> get_attr (store ex_t2) 6 ''id'' = Some ''uuid-2'' \<and>
   uuid_state ex_t2 = 4"
proof -
  have f: "length (store ex_tpl) = 4" "length (store ex_t1) = 6" "uuid_state ex_tpl = 0" "uuid_state ex_t1 = 2"
    by code_simp+
  from Template.replace_fresh_ids[OF ex_tpl_ok ex_replace1 ex_replace2] f show ?thesis
    by (simp add: uuid_str_0 uuid_str_2)
qed

theorem expunge_refines_prune_witness:
  "\<exists>t'. expunge_layout_elements ex_ltpl = Inr ((), t') \<and>
     tostring t' = Some (Element SVG_TAG [] [Element ''g'' [(''id'', ''grp'')] [Element ''path'' [(''d'', ''M0 0'')] []]])"
proof -
  have nl: "get_attr (store ex_ltpl) (root ex_ltpl) LABEL_ATTR \<noteq> Some ''layout''" by code_simp
  have x: "tostring ex_ltpl = Some ex_layout_src" by code_simp
  from Layout.expunge_refines_prune[OF ex_ltpl_ok nl] x show ?thesis
    by (auto simp: ex_layout_src_def LABEL_ATTR_def)
qed

theorem expunge_error_witness:
  "expunge_layout_elements ex_rtpl = Inl (AttributeError ''remove'', ex_rtpl)"
proof -
  have l: "get_attr (store ex_rtpl) (root ex_rtpl) LABEL_ATTR = Some ''layout''" by code_simp
  from Layout.expunge_error[OF ex_rtpl_ok] l show ?thesis by (auto split: sum.splits)
qed

theorem expunge_no_layout_witness:
  "\<exists>y. tostring (exc_state (expunge_layout_elements ex_ltpl)) = Some y \<and> (\<forall>z \<in> set (subtrees y). \<not> labelled z)"
proof -
  have r: "expunge_layout_elements ex_ltpl = Inr ((), exc_state (expunge_layout_elements ex_ltpl))" by code_simp
  from Layout.expunge_no_layout[OF ex_ltpl_ok r] show ?thesis .
qed

theorem render_roundtrip_witness:
  "render_svg_string ex_parser (Some spec_text) None [] False 0 = Inr (Some spec_src)"
proof -
  have "ex_parser spec_text = Inr spec_src" "spec_text \<noteq> []" by code_simp+
  from Render.render_roundtrip[of ex_parser spec_text spec_src, OF this] show ?thesis .
qed

theorem get_defs_file_repeats_witness:
  "\<exists>t1 t2. get_defs ex_ftpl = Inr (None, t1) \<and> get_defs t1 = Inr (None, t2) \<and>
     children (store t2 ! 0) = [3, 2, 1]"
proof -
  have h: "doc_kind ex_ftpl = FromFile" "defs ex_ftpl = None" "defs_query (store ex_ftpl) (root ex_ftpl) = []"
    "tag (store ex_ftpl ! root ex_ftpl) \<noteq> SVG_TAG" by code_simp+
  have f: "root ex_ftpl = 0" "length (store ex_ftpl) = 2" "children (store ex_ftpl ! 0) = [1]" by code_simp+
  from Template.get_defs_file_repeats[OF ex_ftpl_ok h] f show ?thesis by auto
qed

theorem render_missing_defs_witness:
  "render_svg_string ex_parser (Some spec_text) None [(''slot'', frag_text)] True 0 = Inl (AttributeError ''getroot'')"
proof -
  have l: "load ex_parser (Some spec_text) None 0 = Inr ex_stpl" by code_simp
  have h: "defs_query (store ex_stpl) (root ex_stpl) = []"
    "get_by_id ''slot'' ex_stpl = Inr (1, ex_stpl\<lparr>tid_cache := [(''slot'', 1)]\<rparr>)"
    "get_attr (store ex_stpl) 1 ''height'' \<noteq> None" "get_attr (store ex_stpl) 1 ''width'' \<noteq> None"
    "ex_parser frag_text = Inr ex_frag" "doc_kind ex_stpl = FromString" by code_simp+
  from Render.render_missing_defs[OF l h(1-5)] h(6) show ?thesis by simp
qed

theorem interpolate_refines_witness:
  "cache_valid (render_spec ex_parser)
     (snd (interpolate_svg_to_string ex_parser ex_read no_fields_format False 0 0 None (Some tpl_pattern)
        [(''PLACE'', ''slot'')] [] [(''slot'', frag_text)] Mapping.empty))"
proof -
  have v: "cache_valid (render_spec ex_parser) Mapping.empty" by (rule cache_valid_empty)
  from Svg.interpolate_refines[OF v prod.collapse[symmetric]] show ?thesis by blast
qed

theorem get_or_compute_refines_witness:
  "cache_valid (\<lambda>n a v. n = ''double'' \<longrightarrow> v = 2 * a) (snd (get_or_compute False double ''double'' 3 0 Mapping.empty)) \<and>
   fst (get_or_compute False double ''double'' 3 0 Mapping.empty) = Inr 6"
proof -
  have v: "cache_valid (\<lambda>n a v. n = ''double'' \<longrightarrow> v = 2 * a) Mapping.empty" by (rule cache_valid_empty)
  have s: "\<forall>v. double 3 = Inr v \<longrightarrow> ''double'' = ''double'' \<longrightarrow> v = 2 * 3" by (simp add: double_def)
  have f: "fst (get_or_compute False double ''double'' 3 0 Mapping.empty) = Inr 6"
    by (simp add: get_or_compute_def cache_get_def double_def)
  from Cache.get_or_compute_refines[where P = "\<lambda>n a v. n = ''double'' \<longrightarrow> v = 2 * a" and func = double
      and name = "''double''" and args = 3 and disabled = False and now = 0 and c = Mapping.empty,
      OF v s prod.collapse[symmetric]] f
  show ?thesis by blast
qed

theorem get_or_compute_expiry_witness:
  "get_or_compute False (\<lambda>a. Inr 0) ''double'' 3 100 (snd (get_or_compute False double ''double'' 3 0 Mapping.empty)) =
     (Inr 6, snd (get_or_compute False double ''double'' 3 0 Mapping.empty))"
proof -
  have m: "cache_get (''double'', 3) 0 (Mapping.empty :: (string \<times> nat, nat) disk_cache) = None"
    by (simp add: cache_get_def)
  have f: "get_or_compute False double ''double'' 3 0 Mapping.empty =
      (Inr 6, snd (get_or_compute False double ''double'' 3 0 Mapping.empty))"
    by (rule prod_eqI) (simp_all add: get_or_compute_def cache_get_def double_def)
  have "(100::nat) < 0 + ONE_DAY" by (simp add: ONE_DAY_def)
  with Cache.get_or_compute_expiry[OF m f, of "\<lambda>a. Inr 0" 100] show ?thesis by simp
qed

theorem replace_literals_split_join_witness:
  "replace_literals [(''ab'', ''X''), (''aX'', ''Y'')] ''aabab'' = py_join ''Y'' (py_split ''aX'' (py_join ''X'' [''a'', [], []]))"
proof -
  have "\<forall>(a, b) \<in> set [(''ab'', ''X''), (''aX'', ''Y'')]. a \<noteq> []" by simp
  moreover have "py_split ''ab'' ''aabab'' = [''a'', [], []]" by code_simp
  ultimately show ?thesis using Svg.replace_literals_split_join[of "[(''ab'', ''X''), (''aX'', ''Y'')]" "''aabab''"]
    by simp
qed

theorem interpolate_missing_input_witness:
  "interpolate_svg_to_string ex_parser ex_read no_fields_format False 0 0 (Some []) None [] [] [] Mapping.empty =
     (Inl (TypeError MISSING_INPUT), Mapping.empty)"
  using Svg.interpolate_missing_input[of "Some []" None] by simp

theorem interpolate_prefers_string_witness:
  "interpolate_svg_to_string ex_parser ex_read no_fields_format False 0 0 (Some ''tpl.svg'') (Some tpl_text)
      [] [] [(''slot'', frag_text)] Mapping.empty =
   svgs_into_svg_string ex_parser False 0 0 tpl_text [(''slot'', frag_text)] Mapping.empty"
proof -
  have "tpl_text \<noteq> []" "replace_literals [] tpl_text = tpl_text" by (simp_all add: tpl_text_def replace_literals_def)
  with Svg.interpolate_prefers_string[of tpl_text] show ?thesis by (simp add: no_fields_format_def)
qed

theorem render_missing_input_witness:
  "render_svg_string ex_parser None None [(''slot'', frag_text)] True 0 = Inl (TypeError ''parse'')"
  using Render.render_missing_input[of None] by simp

theorem replace_all_partial_failure_witness:
  "replace_all ex_parser [(''slot'', frag_text), (''slot'', frag_text), (''slot2'', frag_text)] ex_tpl =
     Inl (KeyError ''height'', ex_t1\<lparr>uuid_state := 3\<rparr>)"
proof -
  have a: "replace_all ex_parser [(''slot'', frag_text)] ex_tpl = Inr ((), ex_t1)" by code_simp
  have b: "replace_rect_with_svg_string ex_parser ''slot'' frag_text ex_t1 =
      Inl (KeyError ''height'', ex_t1\<lparr>uuid_state := 3\<rparr>)" by code_simp
  from Render.replace_all_partial_failure[OF a b, of "[(''slot2'', frag_text)]"] show ?thesis by simp
qed

theorem render_prunes_after_substitution_witness:
  "render_svg_string ex_parser (Some tpl_text) None [(''slot'', frag_text)] True 0 =
     Inr (Some (prune (the (tostring ex_t1))))"
proof -
  define out where "out = sum.projr (render_svg_string ex_parser (Some tpl_text) None [(''slot'', frag_text)] True 0)"
  have r: "render_svg_string ex_parser (Some tpl_text) None [(''slot'', frag_text)] True 0 = Inr out"
    unfolding out_def by code_simp
  have a: "replace_all ex_parser [(''slot'', frag_text)] ex_tpl = Inr ((), ex_t1)" by code_simp
  from Render.render_prunes_after_substitution[OF r] ex_load_tpl a obtain x where
    "tostring ex_t1 = Some x" "out = Some (prune x)" by auto
  with r show ?thesis by simp
qed

theorem interpolate_svg_raster_witness:
  "fst (interpolate_svg ex_parser ex_read no_fields_format ex_print ex_raster False 0 0 None (Some spec_text)
      [] [] [] (Mapping.empty, Mapping.empty)) = Inr 3"
proof -
  have v: "cache_valid (raster_spec ex_raster) Mapping.empty" by (rule cache_valid_empty)
  have i: "fst (interpolate_svg_to_string ex_parser ex_read no_fields_format False 0 0 None (Some spec_text)
      [] [] [] Mapping.empty) = Inr (Some spec_src)"
    using ex_render_spec
    by (simp add: interpolate_svg_to_string_def svgs_into_svg_string_def get_or_compute_def cache_get_def
        no_fields_format_def replace_literals_def spec_text_def)
  obtain res rc' pc' where e: "interpolate_svg ex_parser ex_read no_fields_format ex_print ex_raster False 0 0
      None (Some spec_text) [] [] [] (Mapping.empty, Mapping.empty) = (res, (rc', pc'))"
    by (metis prod.collapse)
  from Raster.interpolate_svg_raster[OF v e] i have "res = Inr 3"
    by (simp add: ex_print_def ex_raster_def spec_src_def)
  with e show ?thesis by simp
qed

theorem constant_svg_image_witness:
  "fst (constant_svg ex_read ex_raster False 0 ''tpl.svg'' Mapping.empty) = Inr (\<lambda>_::nat. length tpl_text)"
proof -
  have v: "cache_valid (raster_spec ex_raster) Mapping.empty" by (rule cache_valid_empty)
  from Raster.constant_svg_image[OF v, of ex_read False 0 "''tpl.svg''"] obtain c' where
    "constant_svg ex_read ex_raster False 0 ''tpl.svg'' Mapping.empty = (Inr (\<lambda>_::nat. length tpl_text), c')"
    by (auto simp: ex_read_def ex_raster_def tpl_text_def)
  then show ?thesis by simp
qed

end
